theory Spec2Isabelle
  imports Complex_Main "HOL-Library.Log_Nat"
begin

section \<open>Python values: exceptions, strings, integer literals\<close>

text \<open>
  The exceptions the two scripts can meet. \<open>InputError\<close> stands for whatever
  \<^verbatim>\<open>ET.parse\<close> raises (a missing file, an XML syntax error); it carries the
  text that \<^verbatim>\<open>str(e)\<close> prints.
\<close>

datatype py_error = IndexError | ValueError string | AttributeError | InputError string

text \<open>\<^verbatim>\<open>repr\<close> of a string without characters that need escaping.\<close>

definition repr_str :: "string \<Rightarrow> string" where
  "repr_str s = [CHR 0x27] @ s @ [CHR 0x27]"

fun str_error :: "py_error \<Rightarrow> string" where
  "str_error IndexError = ''list index out of range''"
| "str_error (ValueError m) = m"
| "str_error AttributeError = repr_str ''NoneType'' @ '' object has no attribute '' @ repr_str ''lstrip''"
| "str_error (InputError m) = m"

text \<open>\<^verbatim>\<open>xs[i]\<close> for a non-negative literal index \<open>i\<close>.\<close>

definition getitem :: "'a list \<Rightarrow> nat \<Rightarrow> py_error + 'a" where
  "getitem xs i = (if i < length xs then Inr (xs ! i) else Inl IndexError)"

text \<open>\<^verbatim>\<open>s.lstrip('#')\<close> and the slice \<^verbatim>\<open>s[i:i+2]\<close>.\<close>

definition lstrip :: "char \<Rightarrow> string \<Rightarrow> string" where
  "lstrip c s = dropWhile (\<lambda>d. d = c) s"

definition slice2 :: "string \<Rightarrow> nat \<Rightarrow> string" where
  "slice2 s i = take 2 (drop i s)"

text \<open>
  \<^verbatim>\<open>int(s, 16)\<close> on a string of 8-bit characters: white space around the literal,
  an optional sign, an optional \<^verbatim>\<open>0x\<close> prefix, then hexadecimal digits with single
  underscores between them. Anything else is a \<^verbatim>\<open>ValueError\<close>.
\<close>

definition py_isspace :: "char \<Rightarrow> bool" where
  "py_isspace c = (of_char c \<in> {9, 10, 11, 12, 13, 32, 133, 160 :: nat})"

definition hex_digit :: "char \<Rightarrow> nat option" where
  "hex_digit c =
     (let n = (of_char c :: nat) in
      if 48 \<le> n \<and> n \<le> 57 then Some (n - 48)
      else if 97 \<le> n \<and> n \<le> 102 then Some (n - 87)
      else if 65 \<le> n \<and> n \<le> 70 then Some (n - 55)
      else None)"

definition is_digit_or_underscore :: "char \<Rightarrow> bool" where
  "is_digit_or_underscore c = (hex_digit c \<noteq> None \<or> c = CHR ''_'')"

fun digits_ok :: "string \<Rightarrow> bool" where
  "digits_ok [] = False"
| "digits_ok (c # s) =
     (c \<noteq> CHR ''_'' \<and>
      (case s of
         [] \<Rightarrow> True
       | u # s' \<Rightarrow> if u = CHR ''_'' then digits_ok s' else digits_ok s))"

definition hex_value :: "string \<Rightarrow> nat" where
  "hex_value ds = foldl (\<lambda>acc c. case hex_digit c of None \<Rightarrow> acc | Some d \<Rightarrow> acc * 16 + d) 0 ds"

definition strip_sign :: "string \<Rightarrow> bool \<times> string" where
  "strip_sign s =
     (case s of
        [] \<Rightarrow> (False, s)
      | c # r \<Rightarrow> if c = CHR ''-'' then (True, r)
                else if c = CHR ''+'' then (False, r)
                else (False, s))"

definition strip_0x :: "string \<Rightarrow> string" where
  "strip_0x s =
     (case s of
        a # b # r \<Rightarrow>
          if a = CHR ''0'' \<and> (b = CHR ''x'' \<or> b = CHR ''X'')
          then (case r of [] \<Rightarrow> r | u # r' \<Rightarrow> if u = CHR ''_'' then r' else r)
          else s
      | _ \<Rightarrow> s)"

definition py_int16 :: "string \<Rightarrow> py_error + int" where
  "py_int16 s =
     (let (neg, s2) = strip_sign (dropWhile py_isspace s);
          s3 = strip_0x s2;
          ds = takeWhile is_digit_or_underscore s3;
          rest = dropWhile is_digit_or_underscore s3
      in if digits_ok ds \<and> list_all py_isspace rest
         then Inr (if neg then - int (hex_value ds) else int (hex_value ds))
         else Inl (ValueError (''invalid literal for int() with base 16: '' @ repr_str s)))"

text \<open>
  \<^verbatim>\<open>hex_to_rgb\<close>. A stop without the attribute gives \<^verbatim>\<open>None\<close>, on which
  \<^verbatim>\<open>lstrip\<close> raises \<^verbatim>\<open>AttributeError\<close>.
\<close>

type_synonym color = "int \<times> int \<times> int"

definition hex_to_rgb :: "string option \<Rightarrow> py_error + color" where
  "hex_to_rgb hex_color =
     (case hex_color of
        None \<Rightarrow> Inl AttributeError
      | Some h \<Rightarrow>
          let h' = lstrip (CHR ''#'') h in
          (case py_int16 (slice2 h' 0) of Inl e \<Rightarrow> Inl e | Inr r \<Rightarrow>
           case py_int16 (slice2 h' 2) of Inl e \<Rightarrow> Inl e | Inr g \<Rightarrow>
           case py_int16 (slice2 h' 4) of Inl e \<Rightarrow> Inl e | Inr b \<Rightarrow>
           Inr (r, g, b)))"

section \<open>Element trees\<close>

text \<open>
  What \<^verbatim>\<open>ET.parse\<close> builds: an element has a tag (with the namespace in braces
  in front), attributes and children. \<open>iter\<close> lists an element and everything
  below it in document order; \<^verbatim>\<open>find('.//t')\<close> is the first element with tag \<open>t\<close>
  strictly below the root, \<^verbatim>\<open>findall('t')\<close> the children with tag \<open>t\<close>.
\<close>

datatype element = Element (tag: string) (attrib: "(string \<times> string) list") (children: "element list")

fun iter :: "element \<Rightarrow> element list" where
  "iter (Element t a cs) = Element t a cs # concat (map iter cs)"

definition find_descendant :: "string \<Rightarrow> element \<Rightarrow> element option" where
  "find_descendant t rt = List.find (\<lambda>e. tag e = t) (tl (iter rt))"

definition findall :: "string \<Rightarrow> element \<Rightarrow> element list" where
  "findall t el = filter (\<lambda>e. tag e = t) (children el)"

definition get_attr :: "element \<Rightarrow> string \<Rightarrow> string option" where
  "get_attr el k = map_of (attrib el) k"

definition svg_ns :: "string \<Rightarrow> string" where
  "svg_ns name = ''{http://www.w3.org/2000/svg}'' @ name"

section \<open>Images and the world the scripts run in\<close>

type_synonym pixel = "int \<times> int \<times> int \<times> int"

record image =
  im_width :: int
  im_height :: int
  im_rows :: "pixel list list"

datatype svg_file = Malformed string | Wellformed element

record world =
  svg_files :: "string \<rightharpoonup> svg_file"
  png_files :: "string \<rightharpoonup> image"
  stdout :: "string list"

definition print :: "string \<Rightarrow> world \<Rightarrow> world" where
  "print line w = w\<lparr>stdout := stdout w @ [line]\<rparr>"

definition ET_parse :: "world \<Rightarrow> string \<Rightarrow> py_error + element" where
  "ET_parse w path =
     (case svg_files w path of
        None \<Rightarrow> Inl (InputError (''[Errno 2] No such file or directory: '' @ repr_str path))
      | Some (Malformed m) \<Rightarrow> Inl (InputError m)
      | Some (Wellformed rt) \<Rightarrow> Inr rt)"

section \<open>The gradient extractor\<close>

definition default_colors :: "string option list" where
  "default_colors = [Some ''#6366f1'', Some ''#8b5cf6'']"

text \<open>The body of the \<^verbatim>\<open>try\<close> block of \<^verbatim>\<open>parse_svg_colors\<close>.\<close>

definition parse_svg_colors_try :: "string \<Rightarrow> world \<Rightarrow> py_error + string option list" where
  "parse_svg_colors_try svg_path w =
     (case ET_parse w svg_path of
        Inl e \<Rightarrow> Inl e
      | Inr rt \<Rightarrow>
          let gradient =
                (case find_descendant (svg_ns ''linearGradient'') rt of
                   None \<Rightarrow> find_descendant ''linearGradient'' rt
                 | Some g \<Rightarrow> Some g);
              stops =
                (case gradient of
                   None \<Rightarrow> []
                 | Some g \<Rightarrow>
                     let stops1 = map (\<lambda>stop. get_attr stop ''stop-color'') (findall (svg_ns ''stop'') g)
                     in if stops1 = []
                        then map (\<lambda>stop. get_attr stop ''stop-color'') (findall ''stop'' g)
                        else stops1)
          in Inr (if stops \<noteq> [] then stops else default_colors))"

text \<open>
  \<^verbatim>\<open>parse_svg_colors\<close>: the \<^verbatim>\<open>except Exception\<close> clause prints a warning and
  returns the default pair.
\<close>

definition parse_svg_colors :: "string \<Rightarrow> world \<Rightarrow> (py_error + string option list) \<times> world" where
  "parse_svg_colors svg_path w =
     (case parse_svg_colors_try svg_path w of
        Inr stops \<Rightarrow> (Inr stops, w)
      | Inl e \<Rightarrow> (Inr default_colors, print (''Warning: Could not parse SVG colors: '' @ str_error e) w))"

section \<open>Python floats\<close>

text \<open>
  A Python float is an IEEE 754 double; its value is a rational number. Every
  arithmetic operation returns the exact result rounded to the nearest double, ties
  to the even mantissa. \<open>fl\<close> is that rounding: a double has a 53-bit mantissa and
  its last bit weighs at least \<open>2 powi -1074\<close>. Values beyond the largest double do
  not occur: the operands below are colour channels, ratios in the unit interval and
  image sizes.
\<close>

definition round_half_even :: "rat \<Rightarrow> int" where
  "round_half_even q =
     (let n = \<lfloor>q\<rfloor>; r = q - of_int n
      in if r < 1 / 2 then n
         else if 1 / 2 < r then n + 1
         else if even n then n else n + 1)"

text \<open>For \<open>x > 0\<close>, the exponent \<open>e\<close> with \<open>2 powi e \<le> x < 2 powi (e + 1)\<close>.\<close>

definition floor_log2 :: "rat \<Rightarrow> int" where
  "floor_log2 x = (if 1 \<le> x then bitlen \<lfloor>x\<rfloor> - 1 else - bitlen (\<lceil>1 / x\<rceil> - 1))"

definition fl :: "rat \<Rightarrow> rat" where
  "fl x =
     (if x = 0 then 0
      else let a = \<bar>x\<bar>;
               sh = max (floor_log2 a - 52) (- 1074);
               n = round_half_even (a * 2 powi (- sh))
           in sgn x * of_int n * 2 powi sh)"

text \<open>
  \<^verbatim>\<open>float(n)\<close> (what an \<^verbatim>\<open>int\<close> operand of a mixed operation becomes), the
  true division \<^verbatim>\<open>a / b\<close> of two \<^verbatim>\<open>int\<close>s (correctly rounded; the divisor
  is not zero where the scripts divide), float multiplication and addition, and
  \<^verbatim>\<open>int(x)\<close>, which truncates towards zero.
\<close>

definition float_of_int :: "int \<Rightarrow> rat" where
  "float_of_int n = fl (of_int n)"

definition truediv :: "int \<Rightarrow> int \<Rightarrow> rat" where
  "truediv a b = fl (of_int a / of_int b)"

definition fmul :: "rat \<Rightarrow> rat \<Rightarrow> rat" where
  "fmul x y = fl (x * y)"

definition fadd :: "rat \<Rightarrow> rat \<Rightarrow> rat" where
  "fadd x y = fl (x + y)"

definition py_int :: "rat \<Rightarrow> int" where
  "py_int x = (if 0 \<le> x then \<lfloor>x\<rfloor> else \<lceil>x\<rceil>)"

text \<open>\<^verbatim>\<open>str(n)\<close> for an \<^verbatim>\<open>int\<close>.\<close>

fun str_nat :: "nat \<Rightarrow> string" where
  "str_nat n = (if n < 10 then [char_of (48 + n)] else str_nat (n div 10) @ [char_of (48 + n mod 10)])"

definition str_int :: "int \<Rightarrow> string" where
  "str_int n = (if n < 0 then CHR ''-'' # str_nat (nat (- n)) else str_nat (nat n))"

text \<open>\<^verbatim>\<open>str\<close> of a value that is a string or \<^verbatim>\<open>None\<close>.\<close>

definition str_opt :: "string option \<Rightarrow> string" where
  "str_opt v = (case v of None \<Rightarrow> ''None'' | Some s \<Rightarrow> s)"

section \<open>Drawing\<close>

text \<open>
  \<^verbatim>\<open>Image.new('RGBA', (w, h), c)\<close> rejects a negative side. A drawing call on an
  \<^verbatim>\<open>RGBA\<close> image stores its ink, each channel clipped to a byte, into the pixels
  the shape covers; nothing is blended, and what lies outside the image is dropped.
\<close>

definition Image_new :: "int \<Rightarrow> int \<Rightarrow> pixel \<Rightarrow> py_error + image" where
  "Image_new w h c =
     (if w < 0 \<or> h < 0 then Inl (ValueError ''Width and height must be >= 0'')
      else Inr \<lparr>im_width = w, im_height = h, im_rows = replicate (nat h) (replicate (nat w) c)\<rparr>)"

definition clip8 :: "int \<Rightarrow> int" where
  "clip8 v = (if v < 0 then 0 else if 255 < v then 255 else v)"

definition ink :: "pixel \<Rightarrow> pixel" where
  "ink fill = (case fill of (r, g, b, a) \<Rightarrow> (clip8 r, clip8 g, clip8 b, clip8 a))"

definition paint :: "(int \<Rightarrow> int \<Rightarrow> bool) \<Rightarrow> pixel \<Rightarrow> image \<Rightarrow> image" where
  "paint cover fill img =
     img\<lparr>im_rows :=
       map (\<lambda>(y, row). map (\<lambda>(x, p). if cover (int x) (int y) then ink fill else p) (enumerate 0 row))
         (enumerate 0 (im_rows img))\<rparr>"

text \<open>
  \<^verbatim>\<open>draw.line([(x0, y), (x1, y)], fill)\<close> with the default width and \<open>x0 \<le> x1\<close>:
  the horizontal run from \<open>x0\<close> to \<open>x1\<close>, both ends included.
\<close>

definition draw_hline :: "int \<Rightarrow> int \<Rightarrow> int \<Rightarrow> pixel \<Rightarrow> image \<Rightarrow> image" where
  "draw_hline x0 y x1 fill img = paint (\<lambda>px py. py = y \<and> x0 \<le> px \<and> px \<le> x1) fill img"

text \<open>
  Which pixels a filled ellipse in a bounding box and a line of width two or more
  cover is decided by the imaging library's scan conversion, which is not part of the
  repository: the renderer takes it as a parameter.
\<close>

record rasterizer =
  ellipse_cover :: "(int \<times> int) \<times> (int \<times> int) \<Rightarrow> int \<Rightarrow> int \<Rightarrow> bool"
  wide_line_cover :: "int \<times> int \<Rightarrow> int \<times> int \<Rightarrow> int \<Rightarrow> int \<Rightarrow> int \<Rightarrow> bool"

definition draw_ellipse :: "rasterizer \<Rightarrow> (int \<times> int) \<times> (int \<times> int) \<Rightarrow> pixel \<Rightarrow> image \<Rightarrow> image" where
  "draw_ellipse R bbox fill img = paint (ellipse_cover R bbox) fill img"

definition draw_line :: "rasterizer \<Rightarrow> int \<times> int \<Rightarrow> int \<times> int \<Rightarrow> pixel \<Rightarrow> int \<Rightarrow> image \<Rightarrow> image" where
  "draw_line R p q fill width img = paint (wide_line_cover R p q width) fill img"

text \<open>
  One rasterizer to run the model with: the disc inscribed in the box, and the points
  within half the width of the segment.
\<close>

definition sample_rasterizer :: rasterizer where
  "sample_rasterizer =
     \<lparr>ellipse_cover = (\<lambda>((x0, y0), (x1, y1)) x y.
        (2 * x - x0 - x1)\<^sup>2 * (y1 - y0)\<^sup>2 + (2 * y - y0 - y1)\<^sup>2 * (x1 - x0)\<^sup>2 \<le> (x1 - x0)\<^sup>2 * (y1 - y0)\<^sup>2),
      wide_line_cover = (\<lambda>(ax, ay) (bx, by) width x y.
        let dx = bx - ax; dy = by - ay;
            dot = dx * (x - ax) + dy * (y - ay);
            cross = dx * (y - ay) - dy * (x - ax);
            len2 = dx\<^sup>2 + dy\<^sup>2
        in 0 \<le> dot \<and> dot \<le> len2 \<and> 4 * cross\<^sup>2 \<le> width\<^sup>2 * len2)\<rparr>"

section \<open>The icon renderer\<close>

text \<open>The colour of row \<open>y\<close> of the gradient: the three assignments of the loop body.\<close>

definition row_color :: "int \<Rightarrow> color \<Rightarrow> color \<Rightarrow> int \<Rightarrow> color" where
  "row_color sz color1 color2 y =
     (case (color1, color2) of ((r1, g1, b1), (r2, g2, b2)) \<Rightarrow>
        let ratio = truediv y sz;
            r = py_int (fadd (float_of_int r1) (fmul (float_of_int (r2 - r1)) ratio));
            g = py_int (fadd (float_of_int g1) (fmul (float_of_int (g2 - g1)) ratio));
            b = py_int (fadd (float_of_int b1) (fmul (float_of_int (b2 - b1)) ratio))
        in (r, g, b))"

text \<open>The loop \<^verbatim>\<open>for y in range(size)\<close> that fills the background.\<close>

definition gradient_background :: "int \<Rightarrow> color \<Rightarrow> color \<Rightarrow> image \<Rightarrow> image" where
  "gradient_background sz color1 color2 img =
     foldl (\<lambda>im y. case row_color sz color1 color2 (int y) of (r, g, b) \<Rightarrow>
                      draw_hline 0 (int y) sz (r, g, b, 255) im)
       img [0 ..< nat sz]"

definition node_radius :: "int \<Rightarrow> int" where
  "node_radius sz = max 4 (sz div 15)"

definition nodes :: "int \<Rightarrow> (int \<times> int) list" where
  "nodes sz =
     (let center_x = sz div 2; center_y = sz div 2
      in [(center_x - py_int (fmul (float_of_int sz) (fl (12 / 100))), center_y),
          (center_x, center_y - py_int (fmul (float_of_int sz) (fl (15 / 100)))),
          (center_x + py_int (fmul (float_of_int sz) (fl (12 / 100))), center_y)])"

definition line_width :: "int \<Rightarrow> int" where
  "line_width sz = max 2 (sz div 60)"

text \<open>The picture \<^verbatim>\<open>create_icon\<close> draws before it saves it.\<close>

definition draw_icon :: "rasterizer \<Rightarrow> int \<Rightarrow> color \<Rightarrow> color \<Rightarrow> image \<Rightarrow> image" where
  "draw_icon R sz color1 color2 img =
     (let img1 = gradient_background sz color1 color2 img;
          ns = nodes sz;
          img2 = foldl (\<lambda>im (x, y).
                   draw_ellipse R ((x - node_radius sz, y - node_radius sz),
                                   (x + node_radius sz, y + node_radius sz))
                     (255, 255, 255, 240) im) img1 ns;
          img3 = draw_line R (ns ! 1) (ns ! 0) (255, 255, 255, 180) (line_width sz) img2;
          img4 = draw_line R (ns ! 1) (ns ! 2) (255, 255, 255, 180) (line_width sz) img3
      in img4)"

definition create_icon ::
  "rasterizer \<Rightarrow> int \<Rightarrow> string option list \<Rightarrow> string \<Rightarrow> world \<Rightarrow> (py_error + unit) \<times> world" where
  "create_icon R sz colors output_path w =
     (case Image_new sz sz (0, 0, 0, 0) of Inl e \<Rightarrow> (Inl e, w) | Inr img \<Rightarrow>
      case getitem colors 0 of Inl e \<Rightarrow> (Inl e, w) | Inr c0 \<Rightarrow>
      case hex_to_rgb c0 of Inl e \<Rightarrow> (Inl e, w) | Inr color1 \<Rightarrow>
      case getitem colors 1 of Inl e \<Rightarrow> (Inl e, w) | Inr c1 \<Rightarrow>
      case hex_to_rgb c1 of Inl e \<Rightarrow> (Inl e, w) | Inr color2 \<Rightarrow>
      let img' = draw_icon R sz color1 color2 img;
          w1 = w\<lparr>png_files := (png_files w)(output_path \<mapsto> img')\<rparr>
      in (Inr (), print (''  Created '' @ output_path @ '' ('' @ str_int sz @ ''x'' @ str_int sz @ ''px)'') w1))"

section \<open>The script\<close>

text \<open>
  A dictionary display is filled from left to right; a key that comes again keeps its
  place and takes the new value. Iterating over the items follows that order.
\<close>

definition dict_setitem :: "('k \<times> 'v) list \<Rightarrow> 'k \<Rightarrow> 'v \<Rightarrow> ('k \<times> 'v) list" where
  "dict_setitem d k v =
     (if k \<in> fst ` set d then map (\<lambda>(k', v'). if k' = k then (k', v) else (k', v')) d
      else d @ [(k, v)])"

definition dict_display :: "('k \<times> 'v) list \<Rightarrow> ('k \<times> 'v) list" where
  "dict_display kvs = foldl (\<lambda>d (k, v). dict_setitem d k v) [] kvs"

definition sizes :: "(int \<times> string) list" where
  "sizes = dict_display
     [(72, ''icon-72x72.png''),
      (96, ''icon-96x96.png''),
      (128, ''icon-128x128.png''),
      (144, ''icon-144x144.png''),
      (152, ''icon-152x152.png''),
      (192, ''icon-192x192.png''),
      (384, ''icon-384x384.png''),
      (512, ''icon-512x512.png''),
      (76, ''apple-touch-icon-76.png''),
      (120, ''apple-touch-icon-120.png''),
      (152, ''apple-touch-icon-152.png''),
      (167, ''apple-touch-icon-167.png''),
      (180, ''apple-touch-icon.png''),
      (640, ''splash-screen.png'')]"

text \<open>The loop over \<^verbatim>\<open>sizes.items()\<close>; an exception ends it.\<close>

fun create_icons ::
  "rasterizer \<Rightarrow> (int \<times> string) list \<Rightarrow> string option list \<Rightarrow> world \<Rightarrow> (py_error + unit) \<times> world" where
  "create_icons R [] colors w = (Inr (), w)"
| "create_icons R ((sz, filename) # rest) colors w =
     (case create_icon R sz colors (''public/icons/'' @ filename) w of
        (Inl e, w') \<Rightarrow> (Inl e, w')
      | (Inr u, w') \<Rightarrow> create_icons R rest colors w')"

text \<open>
  \<^verbatim>\<open>main\<close>. The check mark of the last message is written as its three UTF-8
  bytes; creating the output directory leaves no trace in the model.
\<close>

definition main :: "rasterizer \<Rightarrow> world \<Rightarrow> (py_error + unit) \<times> world" where
  "main R w =
     (let svg_path = ''public/images/favicon.svg'' in
      if svg_files w svg_path = None
      then (Inr (), print (''Error: '' @ svg_path @ '' not found!'') w)
      else
        case parse_svg_colors svg_path w of (Inl e, w1) \<Rightarrow> (Inl e, w1) | (Inr colors, w1) \<Rightarrow>
        case getitem colors 0 of Inl e \<Rightarrow> (Inl e, w1) | Inr c0 \<Rightarrow>
        case getitem colors 1 of Inl e \<Rightarrow> (Inl e, w1) | Inr c1 \<Rightarrow>
        let w2 = print (''Using gradient colors: '' @ str_opt c0 @ '' to '' @ str_opt c1) w1;
            w3 = print ([CHR 0x0A] @ ''Generating iOS and PWA icons...'') w2
        in case create_icons R sizes colors w3 of (Inl e, w4) \<Rightarrow> (Inl e, w4) | (Inr u, w4) \<Rightarrow>
           let w5 = print ([CHR 0x0A, CHR 0xE2, CHR 0x9C, CHR 0x93] @ '' Successfully generated ''
                           @ str_int (int (length sizes)) @ '' icons in public/icons/'') w4;
               w6 = print ([CHR 0x0A] @ ''You can now test the app on iOS and add it to the home screen.'') w5
           in (Inr (), w6))"

section \<open>Sample inputs\<close>

text \<open>
  Documents and worlds to run the scripts on: a favicon with a two-stop gradient, one
  with a single stop, one without any gradient, one whose gradient has no stops.
\<close>

definition svg_with_stops :: "string list \<Rightarrow> element" where
  "svg_with_stops cs =
     Element (svg_ns ''svg'') [(''viewBox'', ''0 0 32 32'')]
       [Element (svg_ns ''defs'') []
          [Element (svg_ns ''linearGradient'') [(''id'', ''grad'')]
             (map (\<lambda>c. Element (svg_ns ''stop'') [(''offset'', ''0%''), (''stop-color'', c)] []) cs)],
        Element (svg_ns ''circle'') [(''r'', ''4''), (''fill'', ''url(#grad)'')] []]"

definition svg_without_gradient :: element where
  "svg_without_gradient =
     Element (svg_ns ''svg'') [(''viewBox'', ''0 0 32 32'')]
       [Element (svg_ns ''circle'') [(''r'', ''4''), (''fill'', ''#6366f1'')] []]"

definition favicon_world :: "svg_file option \<Rightarrow> world" where
  "favicon_world f =
     \<lparr>svg_files = (\<lambda>p. if p = ''public/images/favicon.svg'' then f else None),
      png_files = Map.empty,
      stdout = []\<rparr>"

section \<open>Notions for the properties\<close>

text \<open>
  The document at a path cannot be read; a document has no gradient element below its
  root; \<open>g\<close> is the gradient the extractor settles on; the stop colours \<open>g\<close> declares.
\<close>

definition unreadable :: "world \<Rightarrow> string \<Rightarrow> bool" where
  "unreadable w path = (case svg_files w path of Some (Wellformed rt) \<Rightarrow> False | _ \<Rightarrow> True)"

definition no_gradient :: "element \<Rightarrow> bool" where
  "no_gradient rt =
     list_all (\<lambda>e. tag e \<noteq> svg_ns ''linearGradient'' \<and> tag e \<noteq> ''linearGradient'') (tl (iter rt))"

definition first_gradient :: "element \<Rightarrow> element \<Rightarrow> bool" where
  "first_gradient rt g =
     (find_descendant (svg_ns ''linearGradient'') rt = Some g
      \<or> (find_descendant (svg_ns ''linearGradient'') rt = None
          \<and> find_descendant ''linearGradient'' rt = Some g))"

definition declares_stops :: "element \<Rightarrow> string option list \<Rightarrow> bool" where
  "declares_stops g cs =
     (if findall (svg_ns ''stop'') g \<noteq> []
      then map (\<lambda>stop. get_attr stop ''stop-color'') (findall (svg_ns ''stop'') g) = cs
      else map (\<lambda>stop. get_attr stop ''stop-color'') (findall ''stop'' g) = cs)"

text \<open>
  The shape of an image: its declared size and the lengths of its rows. \<open>render\<close> is
  the picture \<^verbatim>\<open>create_icon\<close> saves for a size and two colours: the drawing on a
  fresh transparent canvas.
\<close>

definition shape :: "image \<Rightarrow> int \<times> int \<times> nat list" where
  "shape img = (im_width img, im_height img, map length (im_rows img))"

definition render :: "rasterizer \<Rightarrow> int \<Rightarrow> color \<Rightarrow> color \<Rightarrow> image" where
  "render R sz color1 color2 =
     draw_icon R sz color1 color2
       \<lparr>im_width = sz, im_height = sz, im_rows = replicate (nat sz) (replicate (nat sz) (0, 0, 0, 0))\<rparr>"

text \<open>
  The transparent canvas the renderer starts from, a colour of 8-bit channels, and one
  channel of the colour of row \<open>y\<close>: the right-hand side of each of the three
  assignments in the gradient loop.
\<close>

definition canvas :: "int \<Rightarrow> image" where
  "canvas sz = \<lparr>im_width = sz, im_height = sz, im_rows = replicate (nat sz) (replicate (nat sz) (0, 0, 0, 0))\<rparr>"

definition is_color :: "color \<Rightarrow> bool" where
  "is_color c = (case c of (r, g, b) \<Rightarrow> 0 \<le> r \<and> r \<le> 255 \<and> 0 \<le> g \<and> g \<le> 255 \<and> 0 \<le> b \<and> b \<le> 255)"

definition channel :: "int \<Rightarrow> int \<Rightarrow> int \<Rightarrow> int \<Rightarrow> int" where
  "channel c0 c1 sz y = py_int (fadd (float_of_int c0) (fmul (float_of_int (c1 - c0)) (truediv y sz)))"

text \<open>
  The pixel \<open>(x, y)\<close> lies under one of the three nodes or one of the two connecting
  lines of the icon of size \<open>sz\<close>.
\<close>

definition marker_cover :: "rasterizer \<Rightarrow> int \<Rightarrow> int \<Rightarrow> int \<Rightarrow> bool" where
  "marker_cover R sz x y =
     (let ns = nodes sz; rad = node_radius sz
      in list_ex (\<lambda>(cx, cy). ellipse_cover R ((cx - rad, cy - rad), (cx + rad, cy + rad)) x y) ns
         \<or> wide_line_cover R (ns ! 1) (ns ! 0) (line_width sz) x y
         \<or> wide_line_cover R (ns ! 1) (ns ! 2) (line_width sz) x y)"

text \<open>
  The doubles: the rationals with a mantissa below \<open>2 ^ 53\<close> in absolute value and an
  exponent of at least \<open>-1074\<close>.
\<close>

definition is_double :: "rat \<Rightarrow> bool" where
  "is_double x = (\<exists>m k. \<bar>m\<bar> < 2 ^ 53 \<and> - 1074 \<le> k \<and> x = of_int m * 2 powi k)"

section \<open>The gradient extractor: properties\<close>

lemma hex_to_rgb_112233: "hex_to_rgb (Some ''#112233'') = Inr (17, 34, 51)"
  by code_simp

lemma hex_to_rgb_445566: "hex_to_rgb (Some ''#445566'') = Inr (68, 85, 102)"
  by code_simp

lemma hex_to_rgb_default:
  "map hex_to_rgb default_colors = [Inr (99, 102, 241), Inr (139, 92, 246)]"
  by code_simp

lemma parse_try_stops:
  assumes "svg_files w path = Some (Wellformed rt)" "first_gradient rt g" "declares_stops g cs"
  shows "parse_svg_colors_try path w = Inr (if cs \<noteq> [] then cs else default_colors)"
  using assms
  by (auto simp: parse_svg_colors_try_def ET_parse_def Let_def first_gradient_def declares_stops_def
      split: if_splits)

lemma find_None_no_gradient:
  assumes "no_gradient rt"
  shows "find_descendant (svg_ns ''linearGradient'') rt = None"
    and "find_descendant ''linearGradient'' rt = None"
  using assms by (auto simp: no_gradient_def find_descendant_def find_None_iff list_all_iff)

lemma parse_try_no_gradient:
  assumes "svg_files w path = Some (Wellformed rt)" "no_gradient rt"
  shows "parse_svg_colors_try path w = Inr default_colors"
  using assms find_None_no_gradient[OF assms(2)]
  by (simp add: parse_svg_colors_try_def ET_parse_def Let_def)

lemma parse_try_unreadable:
  assumes "unreadable w path"
  shows "\<exists>m. parse_svg_colors_try path w = Inl (InputError m)"
  using assms
  by (auto simp: parse_svg_colors_try_def ET_parse_def unreadable_def split: option.splits svg_file.splits)

lemma parse_svg_colors_total: "\<exists>cs. fst (parse_svg_colors path w) = Inr cs"
  by (cases "parse_svg_colors_try path w") (auto simp: parse_svg_colors_def)

lemma first_gradient_sample:
  "first_gradient (svg_with_stops cs)
     (Element (svg_ns ''linearGradient'') [(''id'', ''grad'')]
        (map (\<lambda>c. Element (svg_ns ''stop'') [(''offset'', ''0%''), (''stop-color'', c)] []) cs))"
  by (simp add: first_gradient_def find_descendant_def svg_with_stops_def svg_ns_def)

lemma declares_stops_sample:
  "declares_stops
     (Element (svg_ns ''linearGradient'') [(''id'', ''grad'')]
        (map (\<lambda>c. Element (svg_ns ''stop'') [(''offset'', ''0%''), (''stop-color'', c)] []) cs))
     (map Some cs)"
  by (induction cs) (auto simp: declares_stops_def findall_def get_attr_def svg_ns_def)

text \<open>
  Claim C8. On a document whose first gradient declares the stop colours \<open>#112233\<close> and
  \<open>#445566\<close> in that order, the extractor returns these two, in that order, and
  \<open>hex_to_rgb\<close> turns them into \<open>(0x11, 0x22, 0x33)\<close> and \<open>(0x44, 0x55, 0x66)\<close>.
\<close>

theorem extractor_two_stops:
  assumes "svg_files w path = Some (Wellformed rt)"
    and "first_gradient rt g"
    and "declares_stops g [Some ''#112233'', Some ''#445566'']"
  shows "\<exists>c1 c2. parse_svg_colors path w = (Inr [c1, c2], w)
       \<and> hex_to_rgb c1 = Inr (0x11, 0x22, 0x33) \<and> hex_to_rgb c2 = Inr (0x44, 0x55, 0x66)"
proof -
  have "parse_svg_colors_try path w = Inr [Some ''#112233'', Some ''#445566'']"
    using parse_try_stops[OF assms] by simp
  then have "parse_svg_colors path w = (Inr [Some ''#112233'', Some ''#445566''], w)"
    by (simp add: parse_svg_colors_def)
  then show ?thesis
    using hex_to_rgb_112233 hex_to_rgb_445566 by simp
qed

theorem extractor_two_stops_witness:
  "\<exists>c1 c2. parse_svg_colors ''public/images/favicon.svg''
             (favicon_world (Some (Wellformed (svg_with_stops [''#112233'', ''#445566'']))))
           = (Inr [c1, c2], favicon_world (Some (Wellformed (svg_with_stops [''#112233'', ''#445566'']))))
       \<and> hex_to_rgb c1 = Inr (17, 34, 51) \<and> hex_to_rgb c2 = Inr (68, 85, 102)"
proof -
  let ?rt = "svg_with_stops [''#112233'', ''#445566'']"
  have a: "svg_files (favicon_world (Some (Wellformed ?rt))) ''public/images/favicon.svg'' = Some (Wellformed ?rt)"
    by (simp add: favicon_world_def)
  have c: "declares_stops
     (Element (svg_ns ''linearGradient'') [(''id'', ''grad'')]
        (map (\<lambda>c. Element (svg_ns ''stop'') [(''offset'', ''0%''), (''stop-color'', c)] []) [''#112233'', ''#445566'']))
     [Some ''#112233'', Some ''#445566'']"
    using declares_stops_sample[of "[''#112233'', ''#445566'']"] by simp
  show ?thesis
    using extractor_two_stops[OF a first_gradient_sample c] by simp
qed

text \<open>
  Claim C4. When the document cannot be read, has no gradient element, or its gradient
  has no stops, the extractor returns the default pair, which converts to
  \<open>(99, 102, 241)\<close> and \<open>(139, 92, 246)\<close>. It returns a list for every path and world:
  no exception leaves it. An unreadable document adds a warning line to the output.
\<close>

theorem extractor_default:
  assumes "unreadable w path
         \<or> (\<exists>rt. svg_files w path = Some (Wellformed rt)
                \<and> (no_gradient rt \<or> (\<exists>g. first_gradient rt g \<and> declares_stops g [])))"
  shows "fst (parse_svg_colors path w) = Inr default_colors
       \<and> map hex_to_rgb default_colors = [Inr (99, 102, 241), Inr (139, 92, 246)]
       \<and> (unreadable w path \<longrightarrow>
            (\<exists>m. snd (parse_svg_colors path w) = print (''Warning: Could not parse SVG colors: '' @ m) w))
       \<and> (\<forall>path' w'. \<exists>cs. fst (parse_svg_colors path' w') = Inr cs)"
proof -
  have 1: "fst (parse_svg_colors path w) = Inr default_colors"
    using assms
  proof (elim disjE exE conjE)
    assume "unreadable w path"
    then obtain m where "parse_svg_colors_try path w = Inl (InputError m)"
      using parse_try_unreadable by blast
    then show ?thesis by (simp add: parse_svg_colors_def)
  next
    fix rt assume "svg_files w path = Some (Wellformed rt)" "no_gradient rt"
    then show ?thesis by (simp add: parse_svg_colors_def parse_try_no_gradient)
  next
    fix rt g assume "svg_files w path = Some (Wellformed rt)" "first_gradient rt g" "declares_stops g []"
    then show ?thesis using parse_try_stops[of w path rt g "[]"] by (simp add: parse_svg_colors_def)
  qed
  have 3: "unreadable w path \<longrightarrow>
            (\<exists>m. snd (parse_svg_colors path w) = print (''Warning: Could not parse SVG colors: '' @ m) w)"
  proof
    assume "unreadable w path"
    then obtain m where "parse_svg_colors_try path w = Inl (InputError m)"
      using parse_try_unreadable by blast
    then show "\<exists>m. snd (parse_svg_colors path w) = print (''Warning: Could not parse SVG colors: '' @ m) w"
      by (auto simp: parse_svg_colors_def)
  qed
  show ?thesis
    using 1 3 hex_to_rgb_default parse_svg_colors_total by blast
qed

theorem extractor_default_witness:
  "fst (parse_svg_colors ''public/images/favicon.svg'' (favicon_world None)) = Inr default_colors
   \<and> stdout (snd (parse_svg_colors ''public/images/favicon.svg'' (favicon_world None))) \<noteq> []
   \<and> fst (parse_svg_colors ''public/images/favicon.svg'' (favicon_world (Some (Malformed ''syntax error: line 1, column 0''))))
       = Inr default_colors
   \<and> fst (parse_svg_colors ''public/images/favicon.svg'' (favicon_world (Some (Wellformed svg_without_gradient))))
       = Inr default_colors
   \<and> fst (parse_svg_colors ''public/images/favicon.svg'' (favicon_world (Some (Wellformed (svg_with_stops [])))))
       = Inr default_colors"
proof -
  let ?p = "''public/images/favicon.svg''"
  have u1: "unreadable (favicon_world None) ?p"
    by (simp add: unreadable_def favicon_world_def)
  have u2: "unreadable (favicon_world (Some (Malformed ''syntax error: line 1, column 0''))) ?p"
    by (simp add: unreadable_def favicon_world_def)
  have n: "\<exists>rt. svg_files (favicon_world (Some (Wellformed svg_without_gradient))) ?p = Some (Wellformed rt)
              \<and> (no_gradient rt \<or> (\<exists>g. first_gradient rt g \<and> declares_stops g []))"
    by (simp add: favicon_world_def no_gradient_def svg_without_gradient_def svg_ns_def)
  have z: "\<exists>rt. svg_files (favicon_world (Some (Wellformed (svg_with_stops [])))) ?p = Some (Wellformed rt)
              \<and> (no_gradient rt \<or> (\<exists>g. first_gradient rt g \<and> declares_stops g []))"
    using first_gradient_sample[of "[]"] declares_stops_sample[of "[]"]
    by (auto simp: favicon_world_def)
  have w1: "stdout (snd (parse_svg_colors ?p (favicon_world None))) \<noteq> []"
    using extractor_default[of "favicon_world None" ?p] u1 by (auto simp: print_def)
  show ?thesis
    using extractor_default[of "favicon_world None" ?p] u1 w1
      extractor_default[of "favicon_world (Some (Malformed ''syntax error: line 1, column 0''))" ?p] u2
      extractor_default[of "favicon_world (Some (Wellformed svg_without_gradient))" ?p] n
      extractor_default[of "favicon_world (Some (Wellformed (svg_with_stops [])))" ?p] z
    by blast
qed

section \<open>Images, the renderer and the script: properties\<close>

lemma map_length_enumerate:
  "map length (map (\<lambda>(y, row). map (h y) (enumerate 0 row)) (enumerate n rows)) = map length rows"
  by (induction rows arbitrary: n) auto

lemma shape_paint: "shape (paint cover fill img) = shape img"
proof -
  have "map length (im_rows (paint cover fill img)) = map length (im_rows img)"
    unfolding paint_def
    using map_length_enumerate[of "\<lambda>y (x, p). if cover (int x) (int y) then ink fill else p" 0 "im_rows img"]
    by simp
  then show ?thesis by (simp add: shape_def paint_def)
qed

lemma paint_nth:
  assumes "y < length (im_rows img)" "x < length (im_rows img ! y)"
  shows "im_rows (paint cover fill img) ! y ! x
       = (if cover (int x) (int y) then ink fill else im_rows img ! y ! x)"
  using assms by (simp add: paint_def nth_enumerate_eq)

lemma shape_foldl:
  assumes "\<And>a x. shape (f a x) = shape a"
  shows "shape (foldl f a xs) = shape a"
  using assms by (induction xs arbitrary: a) auto

lemma shape_gradient_background: "shape (gradient_background sz c1 c2 img) = shape img"
  unfolding gradient_background_def
  by (rule shape_foldl) (simp add: draw_hline_def shape_paint split: prod.splits)

lemma shape_draw_icon: "shape (draw_icon R sz c1 c2 img) = shape img"
proof -
  have e: "shape (foldl (\<lambda>im (x, y).
                   draw_ellipse R ((x - node_radius sz, y - node_radius sz),
                                   (x + node_radius sz, y + node_radius sz))
                     (255, 255, 255, 240) im) a ns) = shape a" for a ns
    by (rule shape_foldl) (simp add: draw_ellipse_def shape_paint split: prod.splits)
  show ?thesis
    by (simp add: draw_icon_def Let_def draw_line_def shape_paint e shape_gradient_background)
qed

lemma shape_render: "shape (render R sz c1 c2) = (sz, sz, replicate (nat sz) (nat sz))"
  by (simp add: render_def shape_draw_icon) (simp add: shape_def)

lemma create_icon_ok:
  assumes "0 \<le> sz" "hex_to_rgb c0 = Inr color1" "hex_to_rgb c1 = Inr color2"
  shows "create_icon R sz (c0 # c1 # rest) out w
       = (Inr (), print (''  Created '' @ out @ '' ('' @ str_int sz @ ''x'' @ str_int sz @ ''px)'')
                    (w\<lparr>png_files := (png_files w)(out \<mapsto> render R sz color1 color2)\<rparr>))"
  using assms by (simp add: create_icon_def Image_new_def getitem_def render_def Let_def)

lemma create_icon_one_color:
  assumes "0 \<le> sz" "hex_to_rgb c0 = Inr color1"
  shows "create_icon R sz [c0] out w = (Inl IndexError, w)"
  using assms by (simp add: create_icon_def Image_new_def getitem_def)


lemma parse_sample:
  "parse_svg_colors ''public/images/favicon.svg'' (favicon_world (Some (Wellformed (svg_with_stops cs))))
   = (Inr (if cs \<noteq> [] then map Some cs else default_colors), favicon_world (Some (Wellformed (svg_with_stops cs))))"
proof -
  have "svg_files (favicon_world (Some (Wellformed (svg_with_stops cs)))) ''public/images/favicon.svg''
        = Some (Wellformed (svg_with_stops cs))"
    by (simp add: favicon_world_def)
  from parse_try_stops[OF this first_gradient_sample declares_stops_sample]
  show ?thesis by (simp add: parse_svg_colors_def)
qed

lemma png_files_print [simp]: "png_files (print l w) = png_files w"
  by (simp add: print_def)

lemma svg_files_print [simp]: "svg_files (print l w) = svg_files w"
  by (simp add: print_def)

lemma png_files_parse [simp]: "png_files (snd (parse_svg_colors path w)) = png_files w"
  by (cases "parse_svg_colors_try path w") (auto simp: parse_svg_colors_def)

lemma create_icons_ok:
  assumes "\<forall>(sz, f) \<in> set kvs. 0 \<le> sz" "hex_to_rgb c0 = Inr color1" "hex_to_rgb c1 = Inr color2"
  shows "fst (create_icons R kvs (c0 # c1 # rest) w) = Inr ()
       \<and> png_files (snd (create_icons R kvs (c0 # c1 # rest) w))
         = foldl (\<lambda>m (sz, f). m(''public/icons/'' @ f \<mapsto> render R sz color1 color2)) (png_files w) kvs"
  using assms(1)
proof (induction kvs arbitrary: w)
  case Nil
  then show ?case by simp
next
  case (Cons kv kvs)
  obtain sz f where kv: "kv = (sz, f)" by (cases kv)
  with Cons.prems have sz: "0 \<le> sz" and rest: "\<forall>(sz, f) \<in> set kvs. 0 \<le> sz" by auto
  show ?case
    using Cons.IH[OF rest] by (simp add: kv create_icon_ok[OF sz assms(2,3)])
qed

lemma sizes_eq:
  "sizes =
     [(72, ''icon-72x72.png''), (96, ''icon-96x96.png''), (128, ''icon-128x128.png''),
      (144, ''icon-144x144.png''), (152, ''apple-touch-icon-152.png''), (192, ''icon-192x192.png''),
      (384, ''icon-384x384.png''), (512, ''icon-512x512.png''), (76, ''apple-touch-icon-76.png''),
      (120, ''apple-touch-icon-120.png''), (167, ''apple-touch-icon-167.png''),
      (180, ''apple-touch-icon.png''), (640, ''splash-screen.png'')]"
  by (simp add: sizes_def dict_display_def dict_setitem_def)

lemma main_ok:
  assumes "svg_files w ''public/images/favicon.svg'' \<noteq> None"
    and "fst (parse_svg_colors ''public/images/favicon.svg'' w) = Inr (c0 # c1 # rest)"
    and "hex_to_rgb c0 = Inr color1" "hex_to_rgb c1 = Inr color2"
  shows "fst (main R w) = Inr ()
       \<and> png_files (snd (main R w))
         = foldl (\<lambda>m (sz, f). m(''public/icons/'' @ f \<mapsto> render R sz color1 color2)) (png_files w) sizes"
proof -
  obtain w1 where p: "parse_svg_colors ''public/images/favicon.svg'' w = (Inr (c0 # c1 # rest), w1)"
    using assms(2) by (cases "parse_svg_colors ''public/images/favicon.svg'' w") auto
  have w1: "png_files w1 = png_files w"
    using png_files_parse[of "''public/images/favicon.svg''" w] p by simp
  have nn: "\<forall>(sz, f) \<in> set sizes. 0 \<le> sz"
    by (simp add: sizes_eq)
  let ?w3 = "print ([CHR 0x0A] @ ''Generating iOS and PWA icons...'')
               (print (''Using gradient colors: '' @ str_opt c0 @ '' to '' @ str_opt c1) w1)"
  from create_icons_ok[OF nn assms(3,4), of R rest ?w3]
  obtain w4 where c: "create_icons R sizes (c0 # c1 # rest) ?w3 = (Inr (), w4)"
    and f: "png_files w4 = foldl (\<lambda>m (sz, f). m(''public/icons/'' @ f \<mapsto> render R sz color1 color2)) (png_files w) sizes"
    by (cases "create_icons R sizes (c0 # c1 # rest) ?w3") (auto simp: w1)
  have ex: "(svg_files w ''public/images/favicon.svg'' = None) = False"
    using assms(1) by simp
  show ?thesis
    unfolding main_def Let_def ex using p c f by (simp add: getitem_def)
qed

lemma dom_foldl_upd:
  "dom (foldl (\<lambda>m (sz, f). m(g f \<mapsto> h sz)) m0 kvs) = dom m0 \<union> g ` snd ` set kvs"
  by (induction kvs arbitrary: m0) auto

lemma hex_to_rgb_6366f1: "hex_to_rgb (Some ''#6366f1'') = Inr (99, 102, 241)"
  by code_simp

lemma hex_to_rgb_8b5cf6: "hex_to_rgb (Some ''#8b5cf6'') = Inr (139, 92, 246)"
  by code_simp

text \<open>
  Claim C7. For every size \<open>s > 0\<close> and every gradient of two colours, the renderer
  succeeds and the image it saves is exactly \<open>s\<close> by \<open>s\<close>: its declared width and
  height are \<open>s\<close>, it has \<open>s\<close> rows, and every row has \<open>s\<close> pixels.
\<close>

theorem render_canvas_size:
  assumes "0 < sz" "hex_to_rgb c0 = Inr color1" "hex_to_rgb c1 = Inr color2"
  shows "fst (create_icon R sz [c0, c1] out w) = Inr ()
       \<and> png_files (snd (create_icon R sz [c0, c1] out w)) out = Some (render R sz color1 color2)
       \<and> im_width (render R sz color1 color2) = sz
       \<and> im_height (render R sz color1 color2) = sz
       \<and> length (im_rows (render R sz color1 color2)) = nat sz
       \<and> map length (im_rows (render R sz color1 color2)) = replicate (nat sz) (nat sz)"
proof -
  have "0 \<le> sz" using assms(1) by simp
  from create_icon_ok[OF this assms(2,3), of R "[]" out w]
  have a: "fst (create_icon R sz [c0, c1] out w) = Inr ()"
    and b: "png_files (snd (create_icon R sz [c0, c1] out w)) out = Some (render R sz color1 color2)"
    by simp_all
  have c: "shape (render R sz color1 color2) = (sz, sz, replicate (nat sz) (nat sz))"
    by (rule shape_render)
  then have d: "map length (im_rows (render R sz color1 color2)) = replicate (nat sz) (nat sz)"
    by (simp add: shape_def)
  have "length (map length (im_rows (render R sz color1 color2))) = nat sz"
    unfolding d by simp
  then have e: "length (im_rows (render R sz color1 color2)) = nat sz" by simp
  show ?thesis using a b c d e by (simp add: shape_def)
qed

theorem render_canvas_size_witness:
  "(0::int) < 72
   \<and> fst (create_icon sample_rasterizer 72 default_colors ''public/icons/icon-72x72.png'' (favicon_world None)) = Inr ()
   \<and> im_width (render sample_rasterizer 72 (99, 102, 241) (139, 92, 246)) = 72
   \<and> im_height (render sample_rasterizer 72 (99, 102, 241) (139, 92, 246)) = 72
   \<and> map length (im_rows (render sample_rasterizer 72 (99, 102, 241) (139, 92, 246))) = replicate 72 72"
proof -
  have h: "(0::int) < 72" by simp
  show ?thesis
    using render_canvas_size[OF h hex_to_rgb_6366f1 hex_to_rgb_8b5cf6, of sample_rasterizer
        "''public/icons/icon-72x72.png''" "favicon_world None"]
    by (simp add: default_colors_def)
qed

text \<open>
  Claim C10. The renderer is deterministic: two calls with the same size and gradient
  save the same pixel grid, whatever the output path and whatever the files and the
  output were before.
\<close>

theorem render_deterministic:
  assumes "0 < sz" "hex_to_rgb c0 = Inr color1" "hex_to_rgb c1 = Inr color2"
  shows "fst (create_icon R sz [c0, c1] out1 w1) = fst (create_icon R sz [c0, c1] out2 w2)
       \<and> png_files (snd (create_icon R sz [c0, c1] out1 w1)) out1
         = png_files (snd (create_icon R sz [c0, c1] out2 w2)) out2
       \<and> png_files (snd (create_icon R sz [c0, c1] out1 w1)) out1 \<noteq> None"
proof -
  have "0 \<le> sz" using assms(1) by simp
  from create_icon_ok[OF this assms(2,3), of R "[]"]
  show ?thesis by simp
qed

theorem render_deterministic_witness:
  "(0::int) < 72
   \<and> png_files (snd (create_icon sample_rasterizer 72 default_colors ''a.png'' (favicon_world None))) ''a.png''
     = png_files (snd (create_icon sample_rasterizer 72 default_colors ''b.png''
          (favicon_world (Some (Malformed ''not well-formed''))))) ''b.png''
   \<and> png_files (snd (create_icon sample_rasterizer 72 default_colors ''a.png'' (favicon_world None))) ''a.png'' \<noteq> None"
proof -
  have h: "(0::int) < 72" by simp
  note t = render_deterministic[OF h hex_to_rgb_6366f1 hex_to_rgb_8b5cf6, of sample_rasterizer
        "''a.png''" "favicon_world None" "''b.png''" "favicon_world (Some (Malformed ''not well-formed''))"]
  show ?thesis
    unfolding default_colors_def using h t by blast
qed

text \<open>
  Claim C6. When the first gradient declares exactly one stop colour, the extractor
  returns a one-element list, not the default pair; the renderer, given that list,
  raises \<open>IndexError\<close> on reading the second colour, and so does \<open>main\<close>.
\<close>

theorem single_stop_breaks_renderer:
  assumes "svg_files w path = Some (Wellformed rt)"
    and "first_gradient rt g"
    and "declares_stops g [Some c]"
    and "hex_to_rgb (Some c) = Inr color1"
    and "0 < sz"
  shows "fst (parse_svg_colors path w) = Inr [Some c]
       \<and> length [Some c] = 1 \<and> [Some c] \<noteq> default_colors
       \<and> create_icon R sz [Some c] out w' = (Inl IndexError, w')
       \<and> (path = ''public/images/favicon.svg'' \<longrightarrow> fst (main R w) = Inl IndexError)"
proof -
  have t: "parse_svg_colors_try path w = Inr [Some c]"
    using parse_try_stops[OF assms(1-3)] by simp
  then have p: "parse_svg_colors path w = (Inr [Some c], w)"
    by (simp add: parse_svg_colors_def)
  have "0 \<le> sz" using assms(5) by simp
  from create_icon_one_color[OF this assms(4)]
  have r: "create_icon R sz [Some c] out w' = (Inl IndexError, w')" .
  have m: "path = ''public/images/favicon.svg'' \<longrightarrow> fst (main R w) = Inl IndexError"
  proof
    assume e: "path = ''public/images/favicon.svg''"
    have ex: "(svg_files w ''public/images/favicon.svg'' = None) = False"
      using assms(1) e by simp
    show "fst (main R w) = Inl IndexError"
      unfolding main_def Let_def ex using p e by (simp add: getitem_def)
  qed
  show ?thesis using p r m by (simp add: default_colors_def)
qed

theorem single_stop_breaks_renderer_witness:
  "fst (parse_svg_colors ''public/images/favicon.svg''
          (favicon_world (Some (Wellformed (svg_with_stops [''#6366f1''])))))
     = Inr [Some ''#6366f1'']
   \<and> create_icon sample_rasterizer 72 [Some ''#6366f1''] ''public/icons/icon-72x72.png'' (favicon_world None)
     = (Inl IndexError, favicon_world None)
   \<and> fst (main sample_rasterizer (favicon_world (Some (Wellformed (svg_with_stops [''#6366f1''])))))
     = Inl IndexError"
proof -
  let ?w = "favicon_world (Some (Wellformed (svg_with_stops [''#6366f1''])))"
  have a: "svg_files ?w ''public/images/favicon.svg'' = Some (Wellformed (svg_with_stops [''#6366f1'']))"
    by (simp add: favicon_world_def)
  have c: "declares_stops
     (Element (svg_ns ''linearGradient'') [(''id'', ''grad'')]
        (map (\<lambda>c. Element (svg_ns ''stop'') [(''offset'', ''0%''), (''stop-color'', c)] []) [''#6366f1'']))
     [Some ''#6366f1'']"
    using declares_stops_sample[of "[''#6366f1'']"] by simp
  have h: "(0::int) < 72" by simp
  show ?thesis
    using single_stop_breaks_renderer[OF a first_gradient_sample c hex_to_rgb_6366f1 h,
        of sample_rasterizer "''public/icons/icon-72x72.png''" "favicon_world None"]
    by simp
qed

lemma sizes_files:
  "(\<lambda>f. ''public/icons/'' @ f) ` snd ` set sizes =
     set [''public/icons/icon-72x72.png'', ''public/icons/icon-96x96.png'', ''public/icons/icon-128x128.png'',
      ''public/icons/icon-144x144.png'', ''public/icons/apple-touch-icon-152.png'', ''public/icons/icon-192x192.png'',
      ''public/icons/icon-384x384.png'', ''public/icons/icon-512x512.png'', ''public/icons/apple-touch-icon-76.png'',
      ''public/icons/apple-touch-icon-120.png'', ''public/icons/apple-touch-icon-167.png'',
      ''public/icons/apple-touch-icon.png'', ''public/icons/splash-screen.png'']"
  by (simp add: sizes_eq)

lemma card_sizes_files: "card ((\<lambda>f. ''public/icons/'' @ f) ` snd ` set sizes) = 13"
  unfolding sizes_files by (subst distinct_card) simp_all

lemma main_sample:
  "fst (main R (favicon_world (Some (Wellformed (svg_with_stops [''#6366f1'', ''#8b5cf6''])))))  = Inr ()
   \<and> png_files (snd (main R (favicon_world (Some (Wellformed (svg_with_stops [''#6366f1'', ''#8b5cf6'']))))))
     = foldl (\<lambda>m (sz, f). m(''public/icons/'' @ f \<mapsto> render R sz (99, 102, 241) (139, 92, 246))) Map.empty sizes"
proof -
  let ?w = "favicon_world (Some (Wellformed (svg_with_stops [''#6366f1'', ''#8b5cf6''])))"
  have a: "svg_files ?w ''public/images/favicon.svg'' \<noteq> None"
    by (simp add: favicon_world_def)
  have b: "fst (parse_svg_colors ''public/images/favicon.svg'' ?w) = Inr [Some ''#6366f1'', Some ''#8b5cf6'']"
    by (simp add: parse_sample)
  have c: "png_files ?w = Map.empty"
    by (simp add: favicon_world_def)
  show ?thesis
    using main_ok[OF a b hex_to_rgb_6366f1 hex_to_rgb_8b5cf6, of R] by (simp add: c)
qed

text \<open>
  Claim C3, amended. The table gives each size one file name. The key 152 comes twice,
  so size 152 is drawn once, as \<open>apple-touch-icon-152.png\<close>; \<open>icon-152x152.png\<close>
  is never written; a run writes exactly 13 icon files.
\<close>

theorem sizes_table_outputs:
  assumes "svg_files w ''public/images/favicon.svg'' \<noteq> None"
    and "fst (parse_svg_colors ''public/images/favicon.svg'' w) = Inr (c0 # c1 # rest)"
    and "hex_to_rgb c0 = Inr color1" "hex_to_rgb c1 = Inr color2"
  shows "distinct (map fst sizes)
       \<and> map_of sizes 152 = Some ''apple-touch-icon-152.png''
       \<and> ''icon-152x152.png'' \<notin> snd ` set sizes
       \<and> fst (main R w) = Inr ()
       \<and> dom (png_files (snd (main R w)))
         = dom (png_files w) \<union> (\<lambda>f. ''public/icons/'' @ f) ` snd ` set sizes
       \<and> card ((\<lambda>f. ''public/icons/'' @ f) ` snd ` set sizes) = 13
       \<and> png_files (snd (main R w)) ''public/icons/apple-touch-icon-152.png'' = Some (render R 152 color1 color2)
       \<and> png_files (snd (main R w)) ''public/icons/icon-152x152.png''
         = png_files w ''public/icons/icon-152x152.png''"
proof -
  note m = main_ok[OF assms, of R]
  have 1: "distinct (map fst sizes)" by (simp add: sizes_eq)
  have 2: "map_of sizes 152 = Some ''apple-touch-icon-152.png''" by (simp add: sizes_eq)
  have 3: "''icon-152x152.png'' \<notin> snd ` set sizes" by (simp add: sizes_eq)
  have 4: "fst (main R w) = Inr ()" using m by simp
  have 5: "dom (png_files (snd (main R w)))
         = dom (png_files w) \<union> (\<lambda>f. ''public/icons/'' @ f) ` snd ` set sizes"
    using m dom_foldl_upd[of "\<lambda>f. ''public/icons/'' @ f" "\<lambda>sz. render R sz color1 color2" "png_files w" sizes]
    by simp
  have 7: "png_files (snd (main R w)) ''public/icons/apple-touch-icon-152.png'' = Some (render R 152 color1 color2)"
    using m by (simp add: sizes_eq)
  have 8: "png_files (snd (main R w)) ''public/icons/icon-152x152.png''
         = png_files w ''public/icons/icon-152x152.png''"
    using m by (simp add: sizes_eq)
  show ?thesis using 1 2 3 4 5 card_sizes_files 7 8 by blast
qed

theorem sizes_table_outputs_witness:
  "fst (main sample_rasterizer (favicon_world (Some (Wellformed svg_without_gradient)))) = Inr ()
   \<and> dom (png_files (snd (main sample_rasterizer (favicon_world (Some (Wellformed svg_without_gradient))))))
     = (\<lambda>f. ''public/icons/'' @ f) ` snd ` set sizes
   \<and> png_files (snd (main sample_rasterizer (favicon_world (Some (Wellformed svg_without_gradient)))))
        ''public/icons/icon-152x152.png'' = None"
proof -
  let ?w = "favicon_world (Some (Wellformed svg_without_gradient))"
  have a: "svg_files ?w ''public/images/favicon.svg'' \<noteq> None"
    by (simp add: favicon_world_def)
  have "svg_files ?w ''public/images/favicon.svg'' = Some (Wellformed svg_without_gradient)"
    by (simp add: favicon_world_def)
  moreover have "no_gradient svg_without_gradient"
    by (simp add: no_gradient_def svg_without_gradient_def svg_ns_def)
  ultimately have b: "fst (parse_svg_colors ''public/images/favicon.svg'' ?w)
       = Inr (Some ''#6366f1'' # Some ''#8b5cf6'' # [])"
    by (simp add: parse_svg_colors_def parse_try_no_gradient default_colors_def)
  have c: "png_files ?w = Map.empty"
    by (simp add: favicon_world_def)
  show ?thesis
    using sizes_table_outputs[OF a b hex_to_rgb_6366f1 hex_to_rgb_8b5cf6, of sample_rasterizer]
    by (simp add: c)
qed

text \<open>
  Claim C3 as stated speaks of 14 files. A run on a favicon with the default gradient,
  starting without any icon file, leaves 13.
\<close>

theorem fourteen_files_counterexample:
  "card (dom (png_files (snd (main sample_rasterizer
      (favicon_world (Some (Wellformed (svg_with_stops [''#6366f1'', ''#8b5cf6'']))))))))
   \<noteq> 14"
proof -
  have e: "dom (png_files (snd (main sample_rasterizer
      (favicon_world (Some (Wellformed (svg_with_stops [''#6366f1'', ''#8b5cf6''])))))))
      = (\<lambda>f. ''public/icons/'' @ f) ` snd ` set sizes"
    using main_sample[of sample_rasterizer]
      dom_foldl_upd[of "\<lambda>f. ''public/icons/'' @ f" "\<lambda>sz. render sample_rasterizer sz (99, 102, 241) (139, 92, 246)"
        Map.empty sizes]
    by simp
  have "card (dom (png_files (snd (main sample_rasterizer
      (favicon_world (Some (Wellformed (svg_with_stops [''#6366f1'', ''#8b5cf6'']))))))))
      = 13"
    unfolding e by (rule card_sizes_files)
  then show ?thesis by simp
qed

text \<open>
  Claim C1. The splash variant should be 640 wide and 1136 high. The run on a favicon
  with the default gradient writes \<open>splash-screen.png\<close> as a square of 640 by 640.
\<close>

theorem splash_screen_is_square:
  "map_option shape (png_files (snd (main sample_rasterizer
      (favicon_world (Some (Wellformed (svg_with_stops [''#6366f1'', ''#8b5cf6'']))))))
      ''public/icons/splash-screen.png'')
   = Some (640, 640, replicate 640 640)"
proof -
  have "png_files (snd (main sample_rasterizer
      (favicon_world (Some (Wellformed (svg_with_stops [''#6366f1'', ''#8b5cf6'']))))))
      ''public/icons/splash-screen.png'' = Some (render sample_rasterizer 640 (99, 102, 241) (139, 92, 246))"
    using main_sample[of sample_rasterizer] by (simp add: sizes_eq)
  then show ?thesis by (simp add: shape_render)
qed

section \<open>Floating point and the gradient: properties\<close>

lemma floor_log2_lower:
  assumes "0 < x"
  shows "2 powi (floor_log2 x) \<le> x"
proof (cases "1 \<le> x")
  case True
  then have n: "0 < \<lfloor>x\<rfloor>" by linarith
  from bitlen_bounds[OF n] have "2 ^ nat (bitlen \<lfloor>x\<rfloor> - 1) \<le> \<lfloor>x\<rfloor>" by simp
  then have "(of_int (2 ^ nat (bitlen \<lfloor>x\<rfloor> - 1)) :: rat) \<le> of_int \<lfloor>x\<rfloor>"
    by (simp only: of_int_le_iff)
  also have "\<dots> \<le> x" by simp
  finally have "(2::rat) ^ nat (bitlen \<lfloor>x\<rfloor> - 1) \<le> x" by simp
  moreover have "1 \<le> bitlen \<lfloor>x\<rfloor>" using n by (simp add: bitlen_alt_def)
  ultimately show ?thesis using True by (simp add: floor_log2_def power_int_def)
next
  case False
  with assms have r: "1 < 1 / x" by simp
  let ?m = "\<lceil>1 / x\<rceil> - 1"
  have m: "0 < ?m" using r by linarith
  from bitlen_bounds[OF m] have "?m < 2 ^ nat (bitlen ?m)" by simp
  then have "\<lceil>1 / x\<rceil> \<le> 2 ^ nat (bitlen ?m)" by simp
  then have "1 / x \<le> of_int (2 ^ nat (bitlen ?m))"
    by (simp only: ceiling_le_iff)
  then have "1 / x \<le> 2 ^ nat (bitlen ?m)" by simp
  then have "1 / 2 ^ nat (bitlen ?m) \<le> x"
    using assms by (simp add: field_simps)
  moreover have "1 \<le> bitlen ?m" using m by (simp add: bitlen_alt_def)
  ultimately show ?thesis using False
    by (simp add: floor_log2_def power_int_def inverse_eq_divide power_one_over)
qed

lemma floor_log2_upper:
  assumes "0 < x"
  shows "x < 2 powi (floor_log2 x + 1)"
proof (cases "1 \<le> x")
  case True
  then have n: "0 < \<lfloor>x\<rfloor>" by linarith
  from bitlen_bounds[OF n] have "\<lfloor>x\<rfloor> < 2 ^ nat (bitlen \<lfloor>x\<rfloor>)" by simp
  then have "\<lfloor>x\<rfloor> + 1 \<le> 2 ^ nat (bitlen \<lfloor>x\<rfloor>)" by simp
  then have "(of_int (\<lfloor>x\<rfloor> + 1) :: rat) \<le> of_int (2 ^ nat (bitlen \<lfloor>x\<rfloor>))"
    by (simp only: of_int_le_iff)
  moreover have "x < of_int (\<lfloor>x\<rfloor> + 1)" by linarith
  ultimately have "x < 2 ^ nat (bitlen \<lfloor>x\<rfloor>)" by simp
  moreover have "0 \<le> bitlen \<lfloor>x\<rfloor>" by (rule bitlen_nonneg)
  ultimately show ?thesis using True by (simp add: floor_log2_def power_int_def)
next
  case False
  with assms have r: "1 < 1 / x" by simp
  let ?m = "\<lceil>1 / x\<rceil> - 1"
  have m: "0 < ?m" using r by linarith
  have b1: "1 \<le> bitlen ?m" using m by (simp add: bitlen_alt_def)
  from bitlen_bounds[OF m] have "2 ^ nat (bitlen ?m - 1) \<le> ?m" by simp
  then have "(of_int (2 ^ nat (bitlen ?m - 1)) :: rat) \<le> of_int ?m"
    by (simp only: of_int_le_iff)
  moreover have "of_int ?m < 1 / x" by linarith
  ultimately have "2 ^ nat (bitlen ?m - 1) < 1 / x" by simp
  then have "x < 1 / 2 ^ nat (bitlen ?m - 1)"
    using assms by (simp add: field_simps)
  moreover have "- bitlen ?m + 1 \<le> 0" using b1 by simp
  moreover have "nat (- (- bitlen ?m + 1)) = nat (bitlen ?m - 1)" by simp
  ultimately show ?thesis using False
    by (simp add: floor_log2_def power_int_def inverse_eq_divide power_one_over)
qed

lemma round_half_even_ge: "of_int n \<le> q \<Longrightarrow> n \<le> round_half_even q"
proof -
  assume "of_int n \<le> q"
  then have "n \<le> \<lfloor>q\<rfloor>" by (simp add: le_floor_iff)
  then show ?thesis by (simp add: round_half_even_def Let_def)
qed

lemma round_half_even_le: "q \<le> of_int n \<Longrightarrow> round_half_even q \<le> n"
proof -
  assume a: "q \<le> of_int n"
  show ?thesis
  proof (cases "q = of_int \<lfloor>q\<rfloor>")
    case True
    then have "q - of_int \<lfloor>q\<rfloor> = 0" by simp
    moreover have "\<lfloor>q\<rfloor> \<le> n" using a by (metis floor_mono floor_of_int)
    ultimately show ?thesis by (simp add: round_half_even_def Let_def)
  next
    case False
    then have "of_int \<lfloor>q\<rfloor> < q" by (metis floor_less_cancel le_less of_int_floor_le floor_of_int)
    with a have "of_int \<lfloor>q\<rfloor> < (of_int n :: rat)" by linarith
    then have "\<lfloor>q\<rfloor> + 1 \<le> n" by simp
    moreover have "\<lfloor>q\<rfloor> \<le> n" using calculation by simp
    ultimately show ?thesis by (simp add: round_half_even_def Let_def)
  qed
qed

lemma fl_pos:
  "0 < x \<Longrightarrow> fl x = of_int (round_half_even (x * 2 powi (- max (floor_log2 x - 52) (- 1074))))
                       * 2 powi (max (floor_log2 x - 52) (- 1074))"
  by (simp add: fl_def Let_def)

lemma fl_minus: "fl (- x) = - fl x"
  by (simp add: fl_def Let_def)

lemma fl_zero [simp]: "fl 0 = 0"
  by (simp add: fl_def)

lemma two_powi_split: "(2::rat) powi k = 2 powi (k - sh) * 2 powi sh"
  by (simp flip: power_int_add)

lemma two_powi_cancel: "(2::rat) powi sh * 2 powi (- sh) = 1"
  by (simp flip: power_int_add)

lemma fl_pos_ge:
  assumes x: "0 < x" and m: "m < 2 ^ 53" and k: "- 1074 \<le> k" and le: "of_int m * 2 powi k \<le> x"
  shows "of_int m * 2 powi k \<le> fl x"
proof -
  define sh where "sh = max (floor_log2 x - 52) (- 1074)"
  define q where "q = x * 2 powi (- sh)"
  have flx: "fl x = of_int (round_half_even q) * 2 powi sh"
    using fl_pos[OF x] by (simp add: sh_def q_def)
  have pos: "(0::rat) < 2 powi sh" "(0::rat) < 2 powi (- sh)" by simp_all
  show ?thesis
  proof (cases "sh \<le> k")
    case True
    define M where "M = m * 2 ^ nat (k - sh)"
    have Mk: "(of_int M :: rat) = of_int m * 2 powi (k - sh)"
      using True by (simp add: M_def power_int_def)
    have a: "of_int m * 2 powi k = of_int M * (2::rat) powi sh"
      unfolding Mk using two_powi_split[of k sh] by simp
    have "of_int M * 2 powi sh * 2 powi (- sh) \<le> x * 2 powi (- sh)"
      using le pos(2) unfolding a by (rule mult_right_mono[OF _ less_imp_le])
    then have "of_int M \<le> q"
      using two_powi_cancel[of sh] by (simp add: q_def mult.assoc)
    then have "M \<le> round_half_even q" by (rule round_half_even_ge)
    then have "(of_int M :: rat) \<le> of_int (round_half_even q)" by simp
    then have "of_int M * 2 powi sh \<le> of_int (round_half_even q) * (2::rat) powi sh"
      using pos(1) by (rule mult_right_mono[OF _ less_imp_le])
    then show ?thesis unfolding flx a .
  next
    case False
    then have shk: "k < sh" by simp
    with k have she: "sh = floor_log2 x - 52" by (simp add: sh_def)
    have "(of_int m :: rat) \<le> 2 ^ 53"
      using m by (metis less_imp_le of_int_le_iff of_int_numeral of_int_power)
    then have "of_int m * 2 powi k \<le> 2 ^ 53 * (2::rat) powi k"
      by (rule mult_right_mono) simp
    also have "\<dots> = 2 powi (53 + k)"
      by (simp add: power_int_add)
    also have "\<dots> \<le> 2 powi (floor_log2 x)"
      using shk she by (intro power_int_increasing) simp_all
    finally have a: "of_int m * 2 powi k \<le> (2::rat) powi (floor_log2 x)" .
    have e: "(2::rat) powi (floor_log2 x) = of_int (2 ^ 52) * 2 powi sh"
      using two_powi_split[of "floor_log2 x" sh] by (simp add: she)
    have "2 powi (floor_log2 x) * 2 powi (- sh) \<le> x * 2 powi (- sh)"
      using floor_log2_lower[OF x] pos(2) by (rule mult_right_mono[OF _ less_imp_le])
    then have "of_int (2 ^ 52) \<le> q"
      unfolding e using two_powi_cancel[of sh] by (simp add: q_def mult.assoc)
    then have "2 ^ 52 \<le> round_half_even q" by (rule round_half_even_ge)
    then have "(of_int (2 ^ 52) :: rat) \<le> of_int (round_half_even q)"
      by (simp only: of_int_le_iff)
    then have "of_int (2 ^ 52) * 2 powi sh \<le> of_int (round_half_even q) * (2::rat) powi sh"
      using pos(1) by (rule mult_right_mono[OF _ less_imp_le])
    then show ?thesis using a unfolding flx e by linarith
  qed
qed

lemma fl_pos_le:
  assumes x: "0 < x" and m: "m < 2 ^ 53" and k: "- 1074 \<le> k" and le: "x \<le> of_int m * 2 powi k"
  shows "fl x \<le> of_int m * 2 powi k"
proof -
  define sh where "sh = max (floor_log2 x - 52) (- 1074)"
  define q where "q = x * 2 powi (- sh)"
  have flx: "fl x = of_int (round_half_even q) * 2 powi sh"
    using fl_pos[OF x] by (simp add: sh_def q_def)
  have pos: "(0::rat) < 2 powi sh" "(0::rat) < 2 powi (- sh)" by simp_all
  show ?thesis
  proof (cases "sh \<le> k")
    case True
    define M where "M = m * 2 ^ nat (k - sh)"
    have Mk: "(of_int M :: rat) = of_int m * 2 powi (k - sh)"
      using True by (simp add: M_def power_int_def)
    have a: "of_int m * 2 powi k = of_int M * (2::rat) powi sh"
      unfolding Mk using two_powi_split[of k sh] by simp
    have "x * 2 powi (- sh) \<le> of_int M * 2 powi sh * 2 powi (- sh)"
      using le pos(2) unfolding a by (rule mult_right_mono[OF _ less_imp_le])
    then have "q \<le> of_int M"
      using two_powi_cancel[of sh] by (simp add: q_def mult.assoc)
    then have "round_half_even q \<le> M" by (rule round_half_even_le)
    then have "(of_int (round_half_even q) :: rat) \<le> of_int M" by simp
    then have "of_int (round_half_even q) * (2::rat) powi sh \<le> of_int M * 2 powi sh"
      using pos(1) by (rule mult_right_mono[OF _ less_imp_le])
    then show ?thesis unfolding flx a .
  next
    case False
    then have shk: "k < sh" by simp
    with k have she: "sh = floor_log2 x - 52" by (simp add: sh_def)
    have "(of_int m :: rat) < 2 ^ 53"
      using m by (metis of_int_less_iff of_int_numeral of_int_power)
    then have "of_int m * 2 powi k < 2 ^ 53 * (2::rat) powi k"
      by (rule mult_strict_right_mono) simp
    also have "\<dots> = 2 powi (53 + k)"
      by (simp add: power_int_add)
    also have "\<dots> \<le> 2 powi (floor_log2 x)"
      using shk she by (intro power_int_increasing) simp_all
    finally have "of_int m * 2 powi k < (2::rat) powi (floor_log2 x)" .
    with floor_log2_lower[OF x] le have False by linarith
    then show ?thesis ..
  qed
qed

lemma is_double_minus: "is_double a \<Longrightarrow> is_double (- a)"
proof -
  assume "is_double a"
  then obtain m k where "\<bar>m\<bar> < 2 ^ 53" "- 1074 \<le> k" "a = of_int m * 2 powi k"
    by (auto simp: is_double_def)
  then have "\<bar>- m\<bar> < 2 ^ 53 \<and> - 1074 \<le> k \<and> - a = of_int (- m) * 2 powi k" by simp
  then show ?thesis unfolding is_double_def by blast
qed

lemma is_double_of_int: "\<bar>n\<bar> < 2 ^ 53 \<Longrightarrow> is_double (of_int n)"
  unfolding is_double_def by (rule exI[of _ n], rule exI[of _ 0]) simp

lemma fl_ge:
  assumes "is_double a" "a \<le> x"
  shows "a \<le> fl x"
proof -
  from assms(1) obtain m k where m: "\<bar>m\<bar> < 2 ^ 53" and k: "- 1074 \<le> k" and a: "a = of_int m * 2 powi k"
    by (auto simp: is_double_def)
  consider "x = 0" | "0 < x" | "x < 0" by linarith
  then show ?thesis
  proof cases
    case 1
    then show ?thesis using assms(2) by simp
  next
    case 2
    have "m < 2 ^ 53" using m by simp
    from fl_pos_ge[OF 2 this k] assms(2) show ?thesis by (simp add: a)
  next
    case 3
    then have p: "0 < - x" by simp
    have "- m < 2 ^ 53" using m by simp
    moreover have "- x \<le> of_int (- m) * 2 powi k" using assms(2) by (simp add: a)
    ultimately have "fl (- x) \<le> of_int (- m) * 2 powi k"
      using fl_pos_le[OF p _ k] by blast
    then show ?thesis by (simp add: fl_minus a)
  qed
qed

lemma fl_le:
  assumes "is_double a" "x \<le> a"
  shows "fl x \<le> a"
proof -
  have "- a \<le> fl (- x)"
    using fl_ge[OF is_double_minus[OF assms(1)], of "- x"] assms(2) by simp
  then show ?thesis by (simp add: fl_minus)
qed

lemma fl_id: "is_double a \<Longrightarrow> fl a = a"
  using fl_ge[of a a] fl_le[of a a] by simp

lemma float_of_int_id: "\<bar>n\<bar> < 2 ^ 53 \<Longrightarrow> float_of_int n = of_int n"
  by (simp add: float_of_int_def fl_id is_double_of_int)

lemma py_int_between:
  assumes "of_int lo \<le> x" "x \<le> of_int hi"
  shows "lo \<le> py_int x \<and> py_int x \<le> hi"
proof -
  have "lo \<le> \<lfloor>x\<rfloor>" using assms(1) by (simp add: le_floor_iff)
  moreover have "\<lfloor>x\<rfloor> \<le> \<lceil>x\<rceil>" by (rule floor_le_ceiling)
  moreover have "\<lceil>x\<rceil> \<le> hi" using assms(2) by (simp add: ceiling_le_iff)
  ultimately have "lo \<le> \<lfloor>x\<rfloor> \<and> \<lfloor>x\<rfloor> \<le> hi \<and> lo \<le> \<lceil>x\<rceil> \<and> \<lceil>x\<rceil> \<le> hi" by linarith
  then show ?thesis unfolding py_int_def by (cases "0 \<le> x") simp_all
qed

lemma truediv_unit:
  assumes "0 \<le> y" "y \<le> sz" "0 < sz"
  shows "0 \<le> truediv y sz \<and> truediv y sz \<le> 1"
proof -
  have d0: "is_double 0" using is_double_of_int[of 0] by simp
  have d1: "is_double 1" using is_double_of_int[of 1] by simp
  have "(0::rat) \<le> of_int y / of_int sz" using assms by simp
  moreover have "of_int y / of_int sz \<le> (1::rat)" using assms by simp
  ultimately show ?thesis
    unfolding truediv_def using fl_ge[OF d0] fl_le[OF d1] by blast
qed


lemma row_color_channel:
  "row_color sz (r1, g1, b1) (r2, g2, b2) y = (channel r1 r2 sz y, channel g1 g2 sz y, channel b1 b2 sz y)"
  by (simp add: row_color_def channel_def Let_def)

lemma small_double: "\<bar>n\<bar> \<le> 512 \<Longrightarrow> is_double (of_int n)"
  by (rule is_double_of_int) simp

lemma small_float: "\<bar>n\<bar> \<le> 512 \<Longrightarrow> float_of_int n = of_int n"
  by (rule float_of_int_id) simp

lemma channel_from_product_bounds:
  assumes c: "0 \<le> c0" "c0 \<le> 255" "0 \<le> c1" "c1 \<le> 255"
    and lo: "\<bar>lo\<bar> \<le> 256" "of_int lo \<le> of_int (c1 - c0) * truediv y sz"
    and hi: "\<bar>hi\<bar> \<le> 256" "of_int (c1 - c0) * truediv y sz \<le> of_int hi"
  shows "c0 + lo \<le> channel c0 c1 sz y \<and> channel c0 c1 sz y \<le> c0 + hi"
proof -
  let ?p = "fl (of_int (c1 - c0) * truediv y sz)"
  have p: "of_int lo \<le> ?p" "?p \<le> of_int hi"
    using fl_ge[OF small_double lo(2)] fl_le[OF small_double hi(2)] lo(1) hi(1) by simp_all
  have dl: "is_double (of_int (c0 + lo))" using c lo(1) by (intro small_double) linarith
  have dh: "is_double (of_int (c0 + hi))" using c hi(1) by (intro small_double) linarith
  have "of_int (c0 + lo) \<le> of_int c0 + ?p" using p(1) by simp
  then have 1: "of_int (c0 + lo) \<le> fl (of_int c0 + ?p)" by (rule fl_ge[OF dl])
  have "of_int c0 + ?p \<le> of_int (c0 + hi)" using p(2) by simp
  then have 2: "fl (of_int c0 + ?p) \<le> of_int (c0 + hi)" by (rule fl_le[OF dh])
  have f0: "float_of_int c0 = of_int c0" using c by (intro small_float) linarith
  have fd: "float_of_int (c1 - c0) = of_int (c1 - c0)" using c by (intro small_float) linarith
  show ?thesis
    unfolding channel_def fadd_def fmul_def f0 fd using py_int_between[OF 1 2] .
qed

lemma channel_between:
  assumes c: "0 \<le> c0" "c0 \<le> 255" "0 \<le> c1" "c1 \<le> 255" and y: "0 \<le> y" "y \<le> sz" "0 < sz"
  shows "min c0 c1 \<le> channel c0 c1 sz y \<and> channel c0 c1 sz y \<le> max c0 c1"
proof -
  let ?t = "truediv y sz"
  let ?d = "c1 - c0"
  from truediv_unit[OF y] have t: "0 \<le> ?t" "?t \<le> 1" by simp_all
  have lo: "of_int (min 0 ?d) \<le> of_int ?d * ?t"
  proof (cases "0 \<le> ?d")
    case True
    then have "0 \<le> of_int ?d * ?t" using t(1) by simp
    then show ?thesis using True by (simp add: min_def)
  next
    case False
    then have "(of_int ?d :: rat) \<le> 0" by simp
    then have "of_int ?d * 1 \<le> of_int ?d * ?t" using t(2) by (rule mult_left_mono_neg[rotated])
    then show ?thesis using False by (simp add: min_def)
  qed
  have hi: "of_int ?d * ?t \<le> of_int (max 0 ?d)"
  proof (cases "0 \<le> ?d")
    case True
    then have "(0::rat) \<le> of_int ?d" by simp
    then have "of_int ?d * ?t \<le> of_int ?d * 1" using t(2) by (rule mult_left_mono[rotated])
    then show ?thesis using True by (simp add: max_def)
  next
    case False
    then have "(of_int ?d :: rat) \<le> 0" by simp
    then have "of_int ?d * ?t \<le> 0" using t(1) by (simp add: mult_nonpos_nonneg)
    then show ?thesis using False by (simp add: max_def)
  qed
  have "\<bar>min 0 ?d\<bar> \<le> 256" "\<bar>max 0 ?d\<bar> \<le> 256" using c by simp_all
  from channel_from_product_bounds[OF c this(1) lo this(2) hi]
  show ?thesis by (simp add: min_def max_def split: if_splits)
qed

lemma channel_row0:
  assumes c: "0 \<le> c0" "c0 \<le> 255" "0 \<le> c1" "c1 \<le> 255"
  shows "channel c0 c1 sz 0 = c0"
proof -
  have t: "truediv 0 sz = 0" by (simp add: truediv_def)
  have "c0 + 0 \<le> channel c0 c1 sz 0 \<and> channel c0 c1 sz 0 \<le> c0 + 0"
    by (rule channel_from_product_bounds[OF c]) (simp_all add: t)
  then show ?thesis by simp
qed

lemma grid_point:
  fixes n sz :: int
  assumes n: "1 \<le> n" "n \<le> 255" and sz: "1 \<le> sz" and K: "n div sz + 1 < n"
  shows "\<exists>a. 0 \<le> a \<and> a \<le> 65536 \<and> (n - (n div sz + 1)) * 65536 \<le> a * n \<and> a * sz \<le> (sz - 1) * 65536"
proof -
  define K where "K = n div sz + 1"
  define a where "a = ((n - K) * 65536 + n - 1) div n"
  have Kn: "K < n" using K by (simp add: K_def)
  have K1: "1 \<le> K" using n sz by (simp add: K_def pos_imp_zdiv_nonneg_iff)
  have a0: "0 \<le> a" using n Kn by (simp add: a_def pos_imp_zdiv_nonneg_iff)
  have up: "a * n \<le> (n - K) * 65536 + n - 1"
  proof -
    have "(n - K) * 65536 + n - 1 = a * n + ((n - K) * 65536 + n - 1) mod n"
      by (simp add: a_def)
    moreover have "0 \<le> ((n - K) * 65536 + n - 1) mod n" using n by simp
    ultimately show ?thesis by linarith
  qed
  have "(n - K) * 65536 + n - 1 < (a + 1) * n"
  proof -
    have "(n - K) * 65536 + n - 1 = a * n + ((n - K) * 65536 + n - 1) mod n"
      by (simp add: a_def)
    moreover have "((n - K) * 65536 + n - 1) mod n < n" using n by simp
    ultimately show ?thesis by (simp add: algebra_simps)
  qed
  then have lo: "(n - K) * 65536 \<le> a * n" by (simp add: algebra_simps)
  have sK: "sz * K - n = sz - n mod sz"
  proof -
    have "n = sz * (n div sz) + n mod sz" by simp
    then show ?thesis by (simp add: K_def algebra_simps)
  qed
  have key: "sz * (n - 1) \<le> 65536 * (sz * K - n)"
  proof (cases "n < sz")
    case True
    then have "n mod sz = n" using n by simp
    then have e: "sz * K - n = sz - n" using sK by simp
    have "n + 1 \<le> sz" using True by simp
    moreover have "0 \<le> 65536 - n + 1" using n by simp
    ultimately have "(n + 1) * (65536 - n + 1) \<le> sz * (65536 - n + 1)"
      by (rule mult_right_mono)
    moreover have "n * n \<le> 255 * 255" using n by (intro mult_mono) simp_all
    ultimately have "65536 * n \<le> sz * (65536 - n + 1)" by (simp add: algebra_simps)
    then show ?thesis unfolding e by (simp add: algebra_simps)
  next
    case False
    then have "sz \<le> n" by simp
    then have "sz * (n - 1) \<le> n * (n - 1)" using n by (intro mult_right_mono) simp_all
    moreover have "n * (n - 1) \<le> 255 * 254" using n by (intro mult_mono) simp_all
    moreover have "1 \<le> sz * K - n"
    proof -
      have "n mod sz < sz" using sz by (intro pos_mod_bound) simp
      then show ?thesis unfolding sK by simp
    qed
    ultimately show ?thesis by simp
  qed
  have "a * n * sz \<le> ((n - K) * 65536 + n - 1) * sz"
    using up sz by (intro mult_right_mono) simp_all
  also have "\<dots> \<le> (sz - 1) * 65536 * n"
    using key by (simp add: algebra_simps)
  finally have "(a * sz) * n \<le> ((sz - 1) * 65536) * n" by (simp add: algebra_simps)
  then have hi: "a * sz \<le> (sz - 1) * 65536"
    using n by (simp add: mult_le_cancel_right)
  have "a * sz \<le> 65536 * sz" using hi by (simp add: algebra_simps)
  then have a1: "a \<le> 65536" using sz by (simp add: mult_le_cancel_right)
  show ?thesis using a0 a1 lo hi unfolding K_def by blast
qed

lemma last_row_product:
  fixes n sz :: int
  assumes n: "1 \<le> n" "n \<le> 255" and sz: "1 \<le> sz"
  shows "of_int (n - (n div sz + 1)) \<le> of_int n * truediv (sz - 1) sz"
proof (cases "n div sz + 1 < n")
  case False
  have "0 \<le> truediv (sz - 1) sz" using truediv_unit[of "sz - 1" sz] sz by simp
  then have "0 \<le> of_int n * truediv (sz - 1) sz" using n by simp
  moreover have "(of_int (n - (n div sz + 1)) :: rat) \<le> 0" using False by simp
  ultimately show ?thesis by linarith
next
  case True
  from grid_point[OF n sz True] obtain a where a: "0 \<le> a" "a \<le> 65536"
    and lo: "(n - (n div sz + 1)) * 65536 \<le> a * n" and hi: "a * sz \<le> (sz - 1) * 65536"
    by blast
  define z :: rat where "z = of_int a * 2 powi (- 16)"
  have z: "z = of_int a / 65536" by (simp add: z_def power_int_minus_divide)
  have "is_double z"
    unfolding is_double_def z_def using a by (intro exI[of _ a] exI[of _ "- 16"]) simp
  moreover have "z \<le> of_int (sz - 1) / of_int sz"
  proof -
    have "(of_int (a * sz) :: rat) \<le> of_int ((sz - 1) * 65536)" using hi by (simp only: of_int_le_iff)
    then show ?thesis using sz by (simp add: z field_simps)
  qed
  ultimately have zt: "z \<le> truediv (sz - 1) sz" unfolding truediv_def by (rule fl_ge)
  have "(of_int ((n - (n div sz + 1)) * 65536) :: rat) \<le> of_int (a * n)" using lo by (simp only: of_int_le_iff)
  then have "of_int (n - (n div sz + 1)) \<le> of_int n * z" by (simp add: z field_simps)
  also have "\<dots> \<le> of_int n * truediv (sz - 1) sz"
    using zt n by (intro mult_left_mono) simp_all
  finally show ?thesis .
qed

lemma int_div_le_self:
  fixes n sz :: int
  assumes "0 \<le> n" "1 \<le> sz"
  shows "n div sz \<le> n"
  using zdiv_mono2[of n 1 sz] assms by simp

lemma channel_last:
  assumes c: "0 \<le> c0" "c0 \<le> 255" "0 \<le> c1" "c1 \<le> 255" and sz: "1 \<le> sz"
  shows "\<bar>channel c0 c1 sz (sz - 1) - c1\<bar> \<le> \<bar>c1 - c0\<bar> div sz + 1"
proof -
  let ?t = "truediv (sz - 1) sz"
  let ?d = "c1 - c0"
  from truediv_unit[of "sz - 1" sz] sz have t: "0 \<le> ?t" "?t \<le> 1" by simp_all
  consider "?d = 0" | "0 < ?d" | "?d < 0" by linarith
  then show ?thesis
  proof cases
    case 1
    then have "c1 = c0" by simp
    moreover have "0 \<le> \<bar>c1 - c0\<bar> div sz" using sz by (simp add: pos_imp_zdiv_nonneg_iff)
    ultimately show ?thesis
      using channel_between[OF c, of "sz - 1" sz] sz by simp
  next
    case 2
    define K where "K = ?d div sz + 1"
    have n: "1 \<le> ?d" "?d \<le> 255" using 2 c by simp_all
    have K: "1 \<le> K" "K \<le> ?d + 1"
      using n sz int_div_le_self by (simp_all add: K_def pos_imp_zdiv_nonneg_iff)
    have lo: "of_int (?d - K) \<le> of_int ?d * ?t"
      unfolding K_def by (rule last_row_product[OF n sz])
    have "(0::rat) \<le> of_int ?d" using 2 by simp
    then have "of_int ?d * ?t \<le> of_int ?d * 1" using t(2) by (rule mult_left_mono[rotated])
    then have hi: "of_int ?d * ?t \<le> of_int ?d" by simp
    have "\<bar>?d - K\<bar> \<le> 256" "\<bar>?d\<bar> \<le> 256" using n K by simp_all
    from channel_from_product_bounds[OF c this(1) lo this(2) hi]
    have "c1 - K \<le> channel c0 c1 sz (sz - 1)" "channel c0 c1 sz (sz - 1) \<le> c1" by simp_all
    then have "\<bar>channel c0 c1 sz (sz - 1) - c1\<bar> \<le> K" by simp
    then show ?thesis using 2 by (simp add: K_def)
  next
    case 3
    define n where "n = - ?d"
    define K where "K = n div sz + 1"
    have n: "1 \<le> n" "n \<le> 255" using 3 c by (simp_all add: n_def)
    have K: "1 \<le> K" "K \<le> n + 1"
      using n sz int_div_le_self by (simp_all add: K_def pos_imp_zdiv_nonneg_iff)
    have "of_int (n - K) \<le> of_int n * ?t"
      unfolding K_def by (rule last_row_product[OF n sz])
    then have hi: "of_int ?d * ?t \<le> of_int (?d + K)"
      by (simp add: n_def algebra_simps)
    have "(of_int ?d :: rat) \<le> 0" using 3 by simp
    then have "of_int ?d * 1 \<le> of_int ?d * ?t" using t(2) by (rule mult_left_mono_neg[rotated])
    then have lo: "of_int ?d \<le> of_int ?d * ?t" by simp
    have "\<bar>?d\<bar> \<le> 256" "\<bar>?d + K\<bar> \<le> 256" using n K by (simp_all add: n_def)
    from channel_from_product_bounds[OF c this(1) lo this(2) hi]
    have "c1 \<le> channel c0 c1 sz (sz - 1)" "channel c0 c1 sz (sz - 1) \<le> c1 + K" by simp_all
    then have "\<bar>channel c0 c1 sz (sz - 1) - c1\<bar> \<le> K" by simp
    moreover have "\<bar>c1 - c0\<bar> = n" using 3 by (simp add: n_def)
    ultimately show ?thesis by (simp add: K_def)
  qed
qed

lemma shape_row_length:
  assumes "shape img = (w, h, replicate n k)" "y < n"
  shows "length (im_rows img) = n" "length (im_rows img ! y) = k"
proof -
  from assms(1) have m: "map length (im_rows img) = replicate n k" by (simp add: shape_def)
  then have "length (map length (im_rows img)) = n" by simp
  then show l: "length (im_rows img) = n" by simp
  have "map length (im_rows img) ! y = k" using m assms(2) by simp
  then show "length (im_rows img ! y) = k" using l assms(2) by simp
qed

lemma paint_nth_shape:
  assumes "shape img = (w, h, replicate n k)" "y < n" "x < k"
  shows "im_rows (paint cover fill img) ! y ! x
       = (if cover (int x) (int y) then ink fill else im_rows img ! y ! x)"
  using shape_row_length[OF assms(1,2)] assms(2,3) by (intro paint_nth) simp_all

lemma gradient_prefix_nth:
  assumes s: "shape img = (w, h, replicate (nat sz) (nat sz))" and y: "y < nat sz" and x: "x < nat sz"
  shows "im_rows (foldl (\<lambda>im y. case row_color sz c1 c2 (int y) of (r, g, b) \<Rightarrow>
                      draw_hline 0 (int y) sz (r, g, b, 255) im) img [0 ..< n]) ! y ! x
       = (if y < n then (case row_color sz c1 c2 (int y) of (r, g, b) \<Rightarrow> ink (r, g, b, 255))
          else im_rows img ! y ! x)"
proof (induction n)
  case 0
  then show ?case by simp
next
  case (Suc n)
  let ?F = "\<lambda>im y. case row_color sz c1 c2 (int y) of (r, g, b) \<Rightarrow> draw_hline 0 (int y) sz (r, g, b, 255) im"
  let ?im = "foldl ?F img [0 ..< n]"
  have sh: "shape ?im = (w, h, replicate (nat sz) (nat sz))"
    using s by (subst shape_foldl) (simp_all add: draw_hline_def shape_paint split: prod.splits)
  obtain r g b where rc: "row_color sz c1 c2 (int n) = (r, g, b)" by (cases "row_color sz c1 c2 (int n)")
  have xs: "int x \<le> sz" using x by simp
  have "im_rows (?F ?im n) ! y ! x = (if y = n then ink (r, g, b, 255) else im_rows ?im ! y ! x)"
    using paint_nth_shape[OF sh y x] xs by (simp add: rc draw_hline_def)
  then show ?case using Suc.IH rc by (auto simp: less_Suc_eq)
qed

lemma gradient_background_nth:
  assumes "shape img = (w, h, replicate (nat sz) (nat sz))" "y < nat sz" "x < nat sz"
  shows "im_rows (gradient_background sz c1 c2 img) ! y ! x
       = (case row_color sz c1 c2 (int y) of (r, g, b) \<Rightarrow> ink (r, g, b, 255))"
  unfolding gradient_background_def using gradient_prefix_nth[OF assms, of c1 c2 "nat sz"] assms(2) by simp

lemma blank_shape:
  "shape \<lparr>im_width = sz, im_height = sz, im_rows = replicate (nat sz) (replicate (nat sz) p)\<rparr>
   = (sz, sz, replicate (nat sz) (nat sz))"
  by (simp add: shape_def)

lemma render_nth:
  assumes y: "y < nat sz" and x: "x < nat sz"
  shows "im_rows (render R sz c1 c2) ! y ! x =
     (let left = (sz div 2 - py_int (fmul (float_of_int sz) (fl (12 / 100))), sz div 2);
          top = (sz div 2, sz div 2 - py_int (fmul (float_of_int sz) (fl (15 / 100))));
          right = (sz div 2 + py_int (fmul (float_of_int sz) (fl (12 / 100))), sz div 2);
          rad = max 4 (sz div 15);
          box = (\<lambda>(cx, cy). ((cx - rad, cy - rad), (cx + rad, cy + rad)))
      in if wide_line_cover R top right (max 2 (sz div 60)) (int x) (int y) then (255, 255, 255, 180)
         else if wide_line_cover R top left (max 2 (sz div 60)) (int x) (int y) then (255, 255, 255, 180)
         else if ellipse_cover R (box right) (int x) (int y) then (255, 255, 255, 240)
         else if ellipse_cover R (box top) (int x) (int y) then (255, 255, 255, 240)
         else if ellipse_cover R (box left) (int x) (int y) then (255, 255, 255, 240)
         else (case row_color sz c1 c2 (int y) of (r, g, b) \<Rightarrow> ink (r, g, b, 255)))"
proof -
  let ?blank = "\<lparr>im_width = sz, im_height = sz, im_rows = replicate (nat sz) (replicate (nat sz) (0, 0, 0, 0))\<rparr>"
  let ?g = "gradient_background sz c1 c2 ?blank"
  have sg: "shape ?g = (sz, sz, replicate (nat sz) (nat sz))"
    by (simp add: shape_gradient_background blank_shape)
  have sp: "shape (paint c f im) = (sz, sz, replicate (nat sz) (nat sz))"
    if "shape im = (sz, sz, replicate (nat sz) (nat sz))" for c f im
    using that by (simp add: shape_paint)
  note pn = paint_nth_shape[OF _ y x]
  have g: "im_rows ?g ! y ! x = (case row_color sz c1 c2 (int y) of (r, g, b) \<Rightarrow> ink (r, g, b, 255))"
    by (rule gradient_background_nth[OF blank_shape y x])
  show ?thesis
    unfolding render_def draw_icon_def nodes_def Let_def node_radius_def line_width_def
      draw_line_def draw_ellipse_def
    by (simp add: pn sp sg g ink_def clip8_def)
qed

lemma ink_color:
  assumes "0 \<le> r" "r \<le> 255" "0 \<le> g" "g \<le> 255" "0 \<le> b" "b \<le> 255"
  shows "ink (r, g, b, 255) = (r, g, b, 255)"
  using assms by (simp add: ink_def clip8_def)

lemma channel_byte:
  assumes c: "0 \<le> c0" "c0 \<le> 255" "0 \<le> c1" "c1 \<le> 255" and y: "0 \<le> y" "y \<le> sz" "0 < sz"
  shows "0 \<le> channel c0 c1 sz y \<and> channel c0 c1 sz y \<le> 255"
proof -
  have "0 \<le> min c0 c1" "max c0 c1 \<le> 255" using c by simp_all
  then show ?thesis using channel_between[OF c y] by linarith
qed

lemma row_color_is_color:
  assumes "is_color color1" "is_color color2" "0 \<le> y" "y \<le> sz" "0 < sz"
  shows "is_color (row_color sz color1 color2 y)"
proof -
  obtain r1 g1 b1 r2 g2 b2 where c: "color1 = (r1, g1, b1)" "color2 = (r2, g2, b2)"
    by (cases color1, cases color2) auto
  have r: "0 \<le> r1" "r1 \<le> 255" "0 \<le> r2" "r2 \<le> 255"
    and g: "0 \<le> g1" "g1 \<le> 255" "0 \<le> g2" "g2 \<le> 255"
    and b: "0 \<le> b1" "b1 \<le> 255" "0 \<le> b2" "b2 \<le> 255"
    using assms(1,2) by (simp_all add: c is_color_def)
  show ?thesis
    using channel_byte[OF r assms(3-5)] channel_byte[OF g assms(3-5)] channel_byte[OF b assms(3-5)]
    by (simp add: c row_color_channel is_color_def)
qed

lemma gradient_pixel:
  assumes "0 < sz" "is_color color1" "is_color color2" "0 \<le> x" "x < sz" "0 \<le> y" "y < sz"
  shows "im_rows (gradient_background sz color1 color2 (canvas sz)) ! nat y ! nat x
       = (case row_color sz color1 color2 y of (r, g, b) \<Rightarrow> (r, g, b, 255))"
proof -
  have s: "shape (canvas sz) = (sz, sz, replicate (nat sz) (nat sz))"
    by (simp add: canvas_def shape_def)
  have yx: "nat y < nat sz" "nat x < nat sz" using assms by simp_all
  have "is_color (row_color sz color1 color2 y)"
    using assms by (intro row_color_is_color) simp_all
  then have "(case row_color sz color1 color2 y of (r, g, b) \<Rightarrow> ink (r, g, b, 255))
           = (case row_color sz color1 color2 y of (r, g, b) \<Rightarrow> (r, g, b, 255))"
    by (cases "row_color sz color1 color2 y") (simp add: is_color_def ink_color)
  then show ?thesis
    using gradient_background_nth[OF s yx, of color1 color2] assms(6) by simp
qed

lemma render_unmarked:
  assumes "0 < sz" "is_color color1" "is_color color2" "0 \<le> x" "x < sz" "0 \<le> y" "y < sz"
    and "\<not> marker_cover R sz x y"
  shows "im_rows (render R sz color1 color2) ! nat y ! nat x
       = (case row_color sz color1 color2 y of (r, g, b) \<Rightarrow> (r, g, b, 255))"
proof -
  have yx: "nat y < nat sz" "nat x < nat sz" using assms by simp_all
  have "is_color (row_color sz color1 color2 y)"
    using assms by (intro row_color_is_color) simp_all
  then have i: "(case row_color sz color1 color2 y of (r, g, b) \<Rightarrow> ink (r, g, b, 255))
           = (case row_color sz color1 color2 y of (r, g, b) \<Rightarrow> (r, g, b, 255))"
    by (cases "row_color sz color1 color2 y") (simp add: is_color_def ink_color)
  show ?thesis
    using render_nth[OF yx, of R color1 color2] assms(4,6,8) i
    by (simp add: marker_cover_def nodes_def node_radius_def line_width_def Let_def)
qed

lemma canvas_shape: "shape (canvas sz) = (sz, sz, replicate (nat sz) (nat sz))"
  by (simp add: canvas_def shape_def)

lemma row_color_72_71: "row_color 72 (99, 102, 241) (139, 92, 246) 71 = (138, 92, 245)"
  by code_simp

lemma row_color_bw_72_71: "row_color 72 (0, 0, 0) (255, 255, 255) 71 = (251, 251, 251)"
  by code_simp

lemma nodes_72: "nodes 72 = [(28, 36), (36, 26), (44, 36)]"
  by code_simp

text \<open>
  Claim C5. For every size \<open>s > 0\<close> and gradient of two colours, the background is
  filled row by row: every pixel of row \<open>y\<close> gets the colour whose channels are
  \<open>c0 + (c1 - c0) * t\<close> with \<open>t = y / s\<close>, computed in floating point and truncated
  by \<open>int\<close>, at alpha 255. The colour does not depend on the column, and the rendered
  icon keeps it wherever no node or line lies.
\<close>

theorem gradient_fill_rows:
  assumes a: "0 < sz" "is_color (r1, g1, b1)" "is_color (r2, g2, b2)" "0 \<le> x" "x < sz" "0 \<le> y" "y < sz"
    and hex: "hex_to_rgb c0 = Inr (r1, g1, b1)" "hex_to_rgb c1 = Inr (r2, g2, b2)"
  shows "png_files (snd (create_icon R sz [c0, c1] out w)) out = Some (render R sz (r1, g1, b1) (r2, g2, b2))
       \<and> im_rows (gradient_background sz (r1, g1, b1) (r2, g2, b2) (canvas sz)) ! nat y ! nat x
         = (py_int (fadd (float_of_int r1) (fmul (float_of_int (r2 - r1)) (truediv y sz))),
            py_int (fadd (float_of_int g1) (fmul (float_of_int (g2 - g1)) (truediv y sz))),
            py_int (fadd (float_of_int b1) (fmul (float_of_int (b2 - b1)) (truediv y sz))),
            255)
       \<and> truediv y sz = fl (of_int y / of_int sz)
       \<and> (\<not> marker_cover R sz x y \<longrightarrow>
            im_rows (render R sz (r1, g1, b1) (r2, g2, b2)) ! nat y ! nat x
            = im_rows (gradient_background sz (r1, g1, b1) (r2, g2, b2) (canvas sz)) ! nat y ! nat x)"
proof -
  have rc: "row_color sz (r1, g1, b1) (r2, g2, b2) y
       = (py_int (fadd (float_of_int r1) (fmul (float_of_int (r2 - r1)) (truediv y sz))),
          py_int (fadd (float_of_int g1) (fmul (float_of_int (g2 - g1)) (truediv y sz))),
          py_int (fadd (float_of_int b1) (fmul (float_of_int (b2 - b1)) (truediv y sz))))"
    by (simp add: row_color_def Let_def)
  have 1: "im_rows (gradient_background sz (r1, g1, b1) (r2, g2, b2) (canvas sz)) ! nat y ! nat x
         = (py_int (fadd (float_of_int r1) (fmul (float_of_int (r2 - r1)) (truediv y sz))),
            py_int (fadd (float_of_int g1) (fmul (float_of_int (g2 - g1)) (truediv y sz))),
            py_int (fadd (float_of_int b1) (fmul (float_of_int (b2 - b1)) (truediv y sz))),
            255)"
    using gradient_pixel[OF a] by (simp add: rc)
  have 0: "png_files (snd (create_icon R sz [c0, c1] out w)) out = Some (render R sz (r1, g1, b1) (r2, g2, b2))"
    using create_icon_ok[OF _ hex, of sz R "[]" out w] a(1) by simp
  have 3: "\<not> marker_cover R sz x y \<longrightarrow>
            im_rows (render R sz (r1, g1, b1) (r2, g2, b2)) ! nat y ! nat x
            = im_rows (gradient_background sz (r1, g1, b1) (r2, g2, b2) (canvas sz)) ! nat y ! nat x"
    using render_unmarked[OF a] gradient_pixel[OF a] by simp
  show ?thesis using 0 1 3 by (simp add: truediv_def)
qed

theorem gradient_fill_rows_witness:
  "png_files (snd (create_icon sample_rasterizer 72 default_colors ''public/icons/icon-72x72.png''
      (favicon_world None))) ''public/icons/icon-72x72.png''
     = Some (render sample_rasterizer 72 (99, 102, 241) (139, 92, 246))
   \<and> im_rows (gradient_background 72 (99, 102, 241) (139, 92, 246) (canvas 72)) ! 71 ! 5 = (138, 92, 245, 255)
   \<and> im_rows (render sample_rasterizer 72 (99, 102, 241) (139, 92, 246)) ! 71 ! 5 = (138, 92, 245, 255)"
proof -
  have c: "is_color (99, 102, 241)" "is_color (139, 92, 246)" by (simp_all add: is_color_def)
  have h: "(0::int) < 72" "(0::int) \<le> 5" "(5::int) < 72" "(0::int) \<le> 71" "(71::int) < 72" by simp_all
  have m: "\<not> marker_cover sample_rasterizer 72 5 71"
    by (simp add: marker_cover_def nodes_72 node_radius_def line_width_def sample_rasterizer_def Let_def)
  have v: "(py_int (fadd (float_of_int 99) (fmul (float_of_int (139 - 99)) (truediv 71 72))),
            py_int (fadd (float_of_int 102) (fmul (float_of_int (92 - 102)) (truediv 71 72))),
            py_int (fadd (float_of_int 241) (fmul (float_of_int (246 - 241)) (truediv 71 72)))) = (138, 92, 245)"
    using row_color_72_71 by (simp add: row_color_def Let_def)
  show ?thesis
    using gradient_fill_rows[OF h(1) c h(2-5) hex_to_rgb_6366f1 hex_to_rgb_8b5cf6, of sample_rasterizer
        "''public/icons/icon-72x72.png''" "favicon_world None"] m v
    by (simp add: default_colors_def)
qed

text \<open>
  Claim C2, amended. Row 0 is filled with the first colour exactly. Row \<open>s - 1\<close> is
  filled with a colour that differs from the second colour, in each channel, by at most
  the channel's difference divided by \<open>s\<close> (rounded down) plus one; it is within one of
  the second colour in every channel whose two values differ by less than \<open>s\<close>.
\<close>

theorem gradient_end_rows:
  assumes a: "0 < sz" "is_color (r1, g1, b1)" "is_color (r2, g2, b2)" "0 \<le> x" "x < sz"
    and hex: "hex_to_rgb c0 = Inr (r1, g1, b1)" "hex_to_rgb c1 = Inr (r2, g2, b2)"
  shows "png_files (snd (create_icon R sz [c0, c1] out w)) out = Some (render R sz (r1, g1, b1) (r2, g2, b2))
       \<and> (\<not> marker_cover R sz x 0 \<longrightarrow>
            im_rows (render R sz (r1, g1, b1) (r2, g2, b2)) ! 0 ! nat x = (r1, g1, b1, 255))
       \<and> (\<not> marker_cover R sz x (sz - 1) \<longrightarrow>
            im_rows (render R sz (r1, g1, b1) (r2, g2, b2)) ! nat (sz - 1) ! nat x
            = im_rows (gradient_background sz (r1, g1, b1) (r2, g2, b2) (canvas sz)) ! nat (sz - 1) ! nat x)
       \<and> im_rows (gradient_background sz (r1, g1, b1) (r2, g2, b2) (canvas sz)) ! 0 ! nat x = (r1, g1, b1, 255)
       \<and> (\<exists>r g b. im_rows (gradient_background sz (r1, g1, b1) (r2, g2, b2) (canvas sz)) ! nat (sz - 1) ! nat x
                     = (r, g, b, 255)
              \<and> \<bar>r - r2\<bar> \<le> \<bar>r2 - r1\<bar> div sz + 1
              \<and> \<bar>g - g2\<bar> \<le> \<bar>g2 - g1\<bar> div sz + 1
              \<and> \<bar>b - b2\<bar> \<le> \<bar>b2 - b1\<bar> div sz + 1
              \<and> (\<bar>r2 - r1\<bar> < sz \<longrightarrow> \<bar>r - r2\<bar> \<le> 1)
              \<and> (\<bar>g2 - g1\<bar> < sz \<longrightarrow> \<bar>g - g2\<bar> \<le> 1)
              \<and> (\<bar>b2 - b1\<bar> < sz \<longrightarrow> \<bar>b - b2\<bar> \<le> 1))"
proof -
  have r: "0 \<le> r1" "r1 \<le> 255" "0 \<le> r2" "r2 \<le> 255"
    and g: "0 \<le> g1" "g1 \<le> 255" "0 \<le> g2" "g2 \<le> 255"
    and b: "0 \<le> b1" "b1 \<le> 255" "0 \<le> b2" "b2 \<le> 255"
    using a(2,3) by (simp_all add: is_color_def)
  have sz: "1 \<le> sz" "(0::int) \<le> 0" "0 \<le> sz - 1" "sz - 1 < sz" using a(1) by simp_all
  have saved: "png_files (snd (create_icon R sz [c0, c1] out w)) out = Some (render R sz (r1, g1, b1) (r2, g2, b2))"
    using create_icon_ok[OF _ hex, of sz R "[]" out w] a(1) by simp
  have "im_rows (gradient_background sz (r1, g1, b1) (r2, g2, b2) (canvas sz)) ! nat 0 ! nat x = (r1, g1, b1, 255)"
    using gradient_pixel[OF a(1-5) sz(2) a(1)]
    by (simp add: row_color_channel channel_row0[OF r] channel_row0[OF g] channel_row0[OF b])
  then have first: "im_rows (gradient_background sz (r1, g1, b1) (r2, g2, b2) (canvas sz)) ! 0 ! nat x
      = (r1, g1, b1, 255)" by simp
  let ?r = "channel r1 r2 sz (sz - 1)" and ?g = "channel g1 g2 sz (sz - 1)" and ?b = "channel b1 b2 sz (sz - 1)"
  have last: "im_rows (gradient_background sz (r1, g1, b1) (r2, g2, b2) (canvas sz)) ! nat (sz - 1) ! nat x
      = (?r, ?g, ?b, 255)"
    using gradient_pixel[OF a(1-5) sz(3,4)] by (simp add: row_color_channel)
  have top: "\<not> marker_cover R sz x 0 \<longrightarrow>
      im_rows (render R sz (r1, g1, b1) (r2, g2, b2)) ! 0 ! nat x = (r1, g1, b1, 255)"
    using render_unmarked[OF a(1-5) sz(2) a(1), of R] gradient_pixel[OF a(1-5) sz(2) a(1)] first by simp
  have bottom: "\<not> marker_cover R sz x (sz - 1) \<longrightarrow>
      im_rows (render R sz (r1, g1, b1) (r2, g2, b2)) ! nat (sz - 1) ! nat x
      = im_rows (gradient_background sz (r1, g1, b1) (r2, g2, b2) (canvas sz)) ! nat (sz - 1) ! nat x"
    using render_unmarked[OF a(1-5) sz(3,4), of R] gradient_pixel[OF a(1-5) sz(3,4)] by simp
  note br = channel_last[OF r sz(1)] and bg = channel_last[OF g sz(1)] and bb = channel_last[OF b sz(1)]
  have small: "\<bar>d\<bar> < sz \<Longrightarrow> \<bar>d\<bar> div sz = 0" for d :: int
    by (simp add: div_pos_pos_trivial)
  have "\<bar>r2 - r1\<bar> < sz \<longrightarrow> \<bar>?r - r2\<bar> \<le> 1" using br small[of "r2 - r1"] by auto
  moreover have "\<bar>g2 - g1\<bar> < sz \<longrightarrow> \<bar>?g - g2\<bar> \<le> 1" using bg small[of "g2 - g1"] by auto
  moreover have "\<bar>b2 - b1\<bar> < sz \<longrightarrow> \<bar>?b - b2\<bar> \<le> 1" using bb small[of "b2 - b1"] by auto
  ultimately show ?thesis using saved top bottom first last br bg bb by blast
qed

theorem gradient_end_rows_witness:
  "im_rows (gradient_background 72 (99, 102, 241) (139, 92, 246) (canvas 72)) ! 0 ! 5 = (99, 102, 241, 255)
   \<and> im_rows (gradient_background 72 (99, 102, 241) (139, 92, 246) (canvas 72)) ! 71 ! 5 = (138, 92, 245, 255)"
proof -
  have c: "is_color (99, 102, 241)" "is_color (139, 92, 246)" by (simp_all add: is_color_def)
  have h: "(0::int) < 72" "(0::int) \<le> 5" "(5::int) < 72" "(0::int) \<le> 71" "(71::int) < 72" by simp_all
  have "im_rows (gradient_background 72 (99, 102, 241) (139, 92, 246) (canvas 72)) ! 0 ! 5 = (99, 102, 241, 255)"
    using gradient_end_rows[OF h(1) c h(2,3) hex_to_rgb_6366f1 hex_to_rgb_8b5cf6] by simp
  moreover have "im_rows (gradient_background 72 (99, 102, 241) (139, 92, 246) (canvas 72)) ! 71 ! 5
      = (138, 92, 245, 255)"
    using gradient_pixel[OF h(1) c h(2-5)] by (simp add: row_color_72_71)
  ultimately show ?thesis by simp
qed

text \<open>
  Claim C2 as stated puts row \<open>s - 1\<close> within one of the second colour for every size
  and gradient. From black to white at size 72 the last row is \<open>(251, 251, 251)\<close>.
\<close>

theorem last_row_counterexample:
  "\<not> \<bar>fst (im_rows (gradient_background 72 (0, 0, 0) (255, 255, 255) (canvas 72)) ! 71 ! 0) - 255\<bar> \<le> 1"
proof -
  have c: "is_color (0, 0, 0)" "is_color (255, 255, 255)" by (simp_all add: is_color_def)
  have h: "(0::int) < 72" "(0::int) \<le> 0" "(0::int) < 72" "(0::int) \<le> 71" "(71::int) < 72" by simp_all
  have "im_rows (gradient_background 72 (0, 0, 0) (255, 255, 255) (canvas 72)) ! 71 ! 0 = (251, 251, 251, 255)"
    using gradient_pixel[OF h(1) c h(2-5)] by (simp add: row_color_bw_72_71)
  then show ?thesis by simp
qed

lemma fl_12: "fl (12 / 100) = 3 / 25 * (1 - 1 / (3 * 2 ^ 53))"
  by code_simp

lemma fl_15: "fl (15 / 100) = 3 / 20 * (1 - 1 / (3 * 2 ^ 53))"
  by code_simp

lemma round_half_even_up:
  assumes "of_int M - 1 / 2 < q" "q \<le> of_int M"
  shows "round_half_even q = M"
proof (cases "q = of_int M")
  case True
  then show ?thesis by (simp add: round_half_even_def)
next
  case False
  with assms(2) have lt: "q < of_int M" by simp
  have "of_int (M - 1) \<le> q" using assms(1) by simp
  moreover have "q < of_int (M - 1) + 1" using lt by simp
  ultimately have f: "\<lfloor>q\<rfloor> = M - 1" by (rule floor_unique)
  have "1 / 2 < q - of_int (M - 1)" using assms(1) by simp
  then show ?thesis by (simp add: round_half_even_def f)
qed

lemma floor_log2_unique_bounds:
  assumes "0 < x" "(2::rat) powi lo \<le> x" "x < 2 powi (hi + 1)"
  shows "lo \<le> floor_log2 x \<and> floor_log2 x \<le> hi"
proof -
  have a: "\<not> floor_log2 x < lo"
  proof
    assume "floor_log2 x < lo"
    then have "(2::rat) powi (floor_log2 x + 1) \<le> 2 powi lo"
      by (intro power_int_increasing) simp_all
    with floor_log2_upper[OF assms(1)] assms(2) show False by linarith
  qed
  have b: "\<not> hi < floor_log2 x"
  proof
    assume "hi < floor_log2 x"
    then have "(2::rat) powi (hi + 1) \<le> 2 powi (floor_log2 x)"
      by (intro power_int_increasing) simp_all
    with floor_log2_lower[OF assms(1)] assms(3) show False by linarith
  qed
  show ?thesis using a b by simp
qed

lemma fl_exact_below:
  fixes k :: int
  assumes k: "1 \<le> k" "k \<le> 2 ^ 31" and x: "x = of_int k * (1 - 1 / (3 * 2 ^ 53))"
  shows "fl x = of_int k"
proof -
  have kr: "(1::rat) \<le> of_int k" "(of_int k :: rat) \<le> 2 ^ 31"
    using k by (simp, metis of_int_le_iff of_int_numeral of_int_power)
  have xpos: "0 < x" using kr by (simp add: x)
  have xk: "x \<le> of_int k" using kr by (simp add: x field_simps)
  have x23: "of_int k * (2 / 3) \<le> x" using kr by (simp add: x field_simps)
  define e where "e = floor_log2 x"
  have lo: "(2::rat) powi (- 1) \<le> x" using x23 kr by simp
  have hi: "x < 2 powi (30 + 1)" using xk kr(2) x kr(1) by (simp add: field_simps)
  from floor_log2_unique_bounds[OF xpos lo hi] have e: "- 1 \<le> e" "e \<le> 30" by (simp_all add: e_def)
  have sh: "max (e - 52) (- 1074) = e - 52" using e by simp
  define P :: rat where "P = 2 powi (52 - e)"
  have Ppos: "0 < P" by (simp add: P_def)
  have Pint: "P = of_int (2 ^ nat (52 - e))" using e by (simp add: P_def power_int_def)
  have Pe: "P * 2 powi e = 2 ^ 52"
    unfolding P_def by (simp flip: power_int_add)
  define M where "M = k * 2 ^ nat (52 - e)"
  have M: "(of_int M :: rat) = of_int k * P" by (simp add: M_def Pint)
  define q where "q = x * 2 powi (- (e - 52))"
  have q: "q = x * P" by (simp add: q_def P_def)
  have q_le: "q \<le> of_int M" unfolding q M using xk Ppos by (simp add: mult_right_mono)
  have "x < 2 * 2 powi e"
    using floor_log2_upper[OF xpos] by (simp add: e_def power_int_add)
  with x23 have "of_int k < 3 * (2::rat) powi e" by linarith
  then have "of_int k * P < 3 * 2 powi e * P" using Ppos by (simp add: mult_strict_right_mono)
  then have kP: "of_int k * P < 3 * 2 ^ 52" using Pe by (simp add: mult.commute mult.left_commute)
  have "of_int M - q = of_int k * P / (3 * 2 ^ 53)"
    unfolding q M by (simp add: x field_simps)
  also have "\<dots> < 1 / 2" using kP by (simp add: field_simps)
  finally have q_gt: "of_int M - 1 / 2 < q" by linarith
  have r: "round_half_even q = M" by (rule round_half_even_up[OF q_gt q_le])
  have "fl x = of_int M * 2 powi (e - 52)"
    using fl_pos[OF xpos] r by (simp add: sh q_def flip: e_def)
  also have "\<dots> = of_int k * (P * 2 powi (e - 52))" by (simp add: M)
  also have "P * 2 powi (e - 52) = 1" unfolding P_def by (simp flip: power_int_add)
  finally show ?thesis by simp
qed

lemma trunc_scaled:
  fixes sz b :: int
  assumes sz: "0 \<le> sz" "sz \<le> 2 ^ 31" and b: "3 \<le> b" "b \<le> 32"
  shows "py_int (fl (of_int sz * (3 / of_int b * (1 - 1 / (3 * 2 ^ 53))))) = 3 * sz div b"
proof -
  define k where "k = 3 * sz div b"
  define r where "r = 3 * sz mod b"
  define x :: rat where "x = of_int sz * (3 / of_int b * (1 - 1 / (3 * 2 ^ 53)))"
  have N: "3 * sz = b * k + r" by (simp add: k_def r_def)
  have "r < b" unfolding r_def using b by (intro pos_mod_bound) simp
  moreover have "0 \<le> r" unfolding r_def using b by (intro pos_mod_sign) simp
  ultimately have r: "0 \<le> r" "r \<le> b - 1" by simp_all
  have k0: "0 \<le> k" using sz b by (simp add: k_def pos_imp_zdiv_nonneg_iff)
  have "b * k \<le> 3 * sz" using N r by simp
  moreover have "3 * k \<le> b * k" using b k0 by (intro mult_right_mono) simp_all
  ultimately have ksz: "k \<le> sz" by simp
  then have k31: "k \<le> 2 ^ 31" using sz by simp
  have br: "(0::rat) < of_int b" using b by simp
  have szr: "(0::rat) \<le> of_int sz" "(of_int sz :: rat) \<le> 2 ^ 31"
    using sz by (simp, metis of_int_le_iff of_int_numeral of_int_power)
  have Nr: "(3::rat) * of_int sz = of_int b * of_int k + of_int r"
    using N by (metis of_int_add of_int_mult of_int_numeral)
  have xN: "x * of_int b = (of_int b * of_int k + of_int r) * (1 - 1 / (3 * 2 ^ 53))"
    using br by (simp add: x_def flip: Nr)
  \<comment> \<open>the result does not exceed \<open>k + 31 / 32\<close>\<close>
  have "x * of_int b \<le> of_int b * of_int k + of_int r"
    unfolding xN using br k0 r(1) by (simp add: field_simps)
  also have "\<dots> \<le> of_int b * of_int k + (of_int b - 1)" using r(2) by simp
  also have "\<dots> \<le> (of_int k + 31 / 32) * of_int b"
  proof -
    have "(of_int b :: rat) \<le> 32" using b(2) by simp
    then show ?thesis by (simp add: field_simps)
  qed
  finally have "x \<le> of_int k + 31 / 32" using br by (simp add: mult_le_cancel_right)
  moreover have z: "of_int k + 31 / 32 = of_int (32 * k + 31) * (2::rat) powi (- 5)"
    by (simp add: power_int_minus_divide field_simps)
  moreover have "is_double (of_int (32 * k + 31) * 2 powi (- 5))"
    unfolding is_double_def using k0 k31 by (intro exI[of _ "32 * k + 31"] exI[of _ "- 5"]) simp
  ultimately have up: "fl x \<le> of_int k + 31 / 32" using fl_le by metis
  \<comment> \<open>and is at least \<open>k\<close>\<close>
  have dk: "is_double (of_int k)" using k0 k31 by (intro is_double_of_int) simp
  have lo: "of_int k \<le> fl x"
  proof (cases "r = 0")
    case True
    then have xk: "x = of_int k * (1 - 1 / (3 * 2 ^ 53))" using xN br by simp
    show ?thesis
    proof (cases "k = 0")
      case True
      then show ?thesis using xk by simp
    next
      case False
      then have "1 \<le> k" using k0 by simp
      from fl_exact_below[OF this k31 xk] show ?thesis by simp
    qed
  next
    case False
    then have r1: "(1::rat) \<le> of_int r" using r(1) by simp
    have "(of_int b * of_int k + of_int r) / (3 * 2 ^ 53) = (3 * of_int sz) / (3 * 2 ^ 53 :: rat)"
      unfolding Nr ..
    also have "\<dots> = of_int sz / 2 ^ 53" by simp
    also have "\<dots> < 1" using szr by simp
    finally have F: "(of_int b * of_int k + of_int r) / (3 * 2 ^ 53) < (of_int r :: rat)" using r1 by linarith
    have "x * of_int b = (of_int b * of_int k + of_int r)
                         - (of_int b * of_int k + of_int r) / (3 * 2 ^ 53)"
      unfolding xN by (simp only: right_diff_distrib mult_1_right times_divide_eq_right)
    then have "of_int b * of_int k \<le> x * of_int b" using F by linarith
    then have "of_int k * of_int b \<le> x * of_int b"
      unfolding mult.commute[of "of_int b" "of_int k"] .
    then have "of_int k \<le> x" using br by (simp add: mult_le_cancel_right)
    then show ?thesis by (rule fl_ge[OF dk])
  qed
  have "(0::rat) \<le> of_int k" using k0 by simp
  then have nn: "0 \<le> fl x" using lo by linarith
  have "fl x < of_int k + 1" using up by linarith
  with lo have "\<lfloor>fl x\<rfloor> = k" by (rule floor_unique)
  then have "py_int (fl x) = k" using nn by (simp add: py_int_def)
  then show ?thesis unfolding x_def k_def .
qed

lemma node_offsets:
  assumes "0 \<le> sz" "sz \<le> 2 ^ 31"
  shows "py_int (fmul (float_of_int sz) (fl (12 / 100))) = 12 * sz div 100"
    and "py_int (fmul (float_of_int sz) (fl (15 / 100))) = 15 * sz div 100"
proof -
  have f: "float_of_int sz = of_int sz" using assms by (intro float_of_int_id) simp
  have a: "12 * sz div 100 = 3 * sz div 25"
    using div_mult_mult1[of 4 "3 * sz" 25] by (simp add: mult.assoc)
  have b: "15 * sz div 100 = 3 * sz div 20"
    using div_mult_mult1[of 5 "3 * sz" 20] by (simp add: mult.assoc)
  show "py_int (fmul (float_of_int sz) (fl (12 / 100))) = 12 * sz div 100"
    unfolding fmul_def f fl_12 a using trunc_scaled[OF assms, of 25] by simp
  show "py_int (fmul (float_of_int sz) (fl (15 / 100))) = 15 * sz div 100"
    unfolding fmul_def f fl_15 b using trunc_scaled[OF assms, of 20] by simp
qed

text \<open>
  Claim C9. The three node centres lie \<open>int(size * 0.12)\<close> to the left and right of
  the centre and \<open>int(size * 0.15)\<close> above it, which up to size \<open>2 ^ 31\<close> are the exact
  products rounded down; the node radius is \<open>max(4, size // 15)\<close>
  and the line width \<open>max(2, size // 60)\<close>. The rendered icon is the gradient with the
  three discs in \<open>(255, 255, 255, 240)\<close> on it and, over them, exactly the two lines top
  to left and top to right in \<open>(255, 255, 255, 180)\<close>.
\<close>

theorem marker_geometry:
  assumes a: "0 < sz" "0 \<le> x" "x < sz" "0 \<le> y" "y < sz"
    and hex: "hex_to_rgb c0 = Inr color1" "hex_to_rgb c1 = Inr color2"
  shows
    "png_files (snd (create_icon R sz [c0, c1] out w)) out = Some (render R sz color1 color2)
     \<and> (let ox = py_int (fmul (float_of_int sz) (fl (12 / 100)));
          oy = py_int (fmul (float_of_int sz) (fl (15 / 100)));
          left = (sz div 2 - ox, sz div 2);
          top = (sz div 2, sz div 2 - oy);
          right = (sz div 2 + ox, sz div 2);
          rad = max 4 (sz div 15);
          lw = max 2 (sz div 60);
          box = (\<lambda>(cx, cy). ((cx - rad, cy - rad), (cx + rad, cy + rad)))
      in nodes sz = [left, top, right] \<and> node_radius sz = rad \<and> line_width sz = lw
         \<and> (sz \<le> 2 ^ 31 \<longrightarrow> ox = 12 * sz div 100 \<and> oy = 15 * sz div 100)
         \<and> im_rows (render R sz color1 color2) ! nat y ! nat x
           = (if wide_line_cover R top left lw x y \<or> wide_line_cover R top right lw x y
              then (255, 255, 255, 180)
              else if ellipse_cover R (box left) x y \<or> ellipse_cover R (box top) x y
                      \<or> ellipse_cover R (box right) x y
              then (255, 255, 255, 240)
              else im_rows (gradient_background sz color1 color2 (canvas sz)) ! nat y ! nat x))"
proof -
  have yx: "nat y < nat sz" "nat x < nat sz" using a by simp_all
  have saved: "png_files (snd (create_icon R sz [c0, c1] out w)) out = Some (render R sz color1 color2)"
    using create_icon_ok[OF _ hex, of sz R "[]" out w] a(1) by simp
  have off: "sz \<le> 2 ^ 31 \<longrightarrow>
      py_int (fmul (float_of_int sz) (fl (12 / 100))) = 12 * sz div 100
      \<and> py_int (fmul (float_of_int sz) (fl (15 / 100))) = 15 * sz div 100"
    using node_offsets[of sz] a(1) by simp
  show ?thesis
    using render_nth[OF yx, of R color1 color2] gradient_background_nth[OF canvas_shape yx, of color1 color2]
      a(2,4) off saved
    by (simp add: Let_def nodes_def node_radius_def line_width_def)
qed

theorem marker_geometry_witness:
  "nodes 72 = [(28, 36), (36, 26), (44, 36)] \<and> node_radius 72 = 4 \<and> line_width 72 = 2
   \<and> im_rows (render sample_rasterizer 72 (99, 102, 241) (139, 92, 246)) ! 36 ! 47 = (255, 255, 255, 240)
   \<and> im_rows (render sample_rasterizer 72 (99, 102, 241) (139, 92, 246)) ! 31 ! 32 = (255, 255, 255, 180)"
proof -
  have h: "(0::int) < 72" "(0::int) \<le> 47" "(47::int) < 72" "(0::int) \<le> 36" "(36::int) < 72"
    "(0::int) \<le> 32" "(32::int) < 72" "(0::int) \<le> 31" "(31::int) < 72" by simp_all
  have n: "py_int (fmul (float_of_int 72) (fl (3 / 25))) = 8" "py_int (fmul (float_of_int 72) (fl (3 / 20))) = 10"
    using nodes_72 by (simp_all add: nodes_def Let_def)
  have a: "im_rows (render sample_rasterizer 72 (99, 102, 241) (139, 92, 246)) ! 36 ! 47 = (255, 255, 255, 240)"
    using marker_geometry[OF h(1) h(2,3) h(4,5) hex_to_rgb_6366f1 hex_to_rgb_8b5cf6, of sample_rasterizer]
    by (simp add: Let_def n sample_rasterizer_def)
  have b: "im_rows (render sample_rasterizer 72 (99, 102, 241) (139, 92, 246)) ! 31 ! 32 = (255, 255, 255, 180)"
    using marker_geometry[OF h(1) h(6,7) h(8,9) hex_to_rgb_6366f1 hex_to_rgb_8b5cf6, of sample_rasterizer]
    by (simp add: Let_def n sample_rasterizer_def)
  show ?thesis
    using a b nodes_72 by (simp add: node_radius_def line_width_def)
qed

end
